theory Spec2Isabelle
  imports Main "HOL-Library.Char_ord" "HOL-Library.List_Lexorder"
begin

section \<open>The documentation builder of gcloud-node (scripts/docs/builder.js)\<close>

subsection \<open>Configuration constants\<close>

text \<open>
  Modelled from the spec: \<^verbatim>\<open>scripts/docs/config.js\<close> is not among the sources.
  The spec names the default version (the pseudo-version "master"), the umbrella package
  (its bundles live under \<^verbatim>\<open>docs/json/google-cloud/<version>/\<close>) and the two
  per-version files \<^verbatim>\<open>types.json\<close> and \<^verbatim>\<open>toc.json\<close>.
\<close>

definition UMBRELLA_PACKAGE :: string where
  "UMBRELLA_PACKAGE = ''google-cloud''"

definition DEFAULT_VERSION :: string where
  "DEFAULT_VERSION = ''master''"

definition TYPES_DICT :: string where
  "TYPES_DICT = ''types.json''"

definition TOC :: string where
  "TOC = ''toc.json''"

definition DOCS_ROOT :: string where
  "DOCS_ROOT = ''./docs/json''"

definition PACKAGES_ROOT :: string where
  "PACKAGES_ROOT = ''./packages''"

subsection \<open>Node's \<^verbatim>\<open>path\<close> module (POSIX flavour)\<close>

text \<open>Splitting a string at every separator; the pieces between two separators may
  be empty.\<close>

fun split_char :: "char \<Rightarrow> string \<Rightarrow> string list" where
  "split_char sep [] = [[]]"
| "split_char sep (c # cs) =
     (if c = sep then [] # split_char sep cs
      else (case split_char sep cs of
              [] \<Rightarrow> [[c]]
            | s # ss \<Rightarrow> (c # s) # ss))"

definition split_slash :: "string \<Rightarrow> string list" where
  "split_slash p = split_char CHR ''/'' p"

fun join_slash :: "string list \<Rightarrow> string" where
  "join_slash [] = []"
| "join_slash [s] = s"
| "join_slash (s # t # ss) = s @ ''/'' @ join_slash (t # ss)"

text \<open>
  \<^verbatim>\<open>normalizeString\<close> goes through the segments and keeps a result: empty and
  \<^verbatim>\<open>.\<close> segments are dropped; \<^verbatim>\<open>..\<close> removes the last kept segment when there is one
  that is not itself \<^verbatim>\<open>..\<close>, and is kept only when the path may climb above its
  start. The result is held with its last segment first.
\<close>

definition seg_step :: "bool \<Rightarrow> string list \<Rightarrow> string \<Rightarrow> string list" where
  "seg_step climb res s =
     (if s = [] \<or> s = ''.'' then res
      else if s = ''..'' then
        (case res of
           [] \<Rightarrow> (if climb then [s] else [])
         | a # as \<Rightarrow> if a = ''..'' then (if climb then s # res else res) else as)
      else s # res)"

definition normalize_segments :: "bool \<Rightarrow> string list \<Rightarrow> string list" where
  "normalize_segments climb segs = rev (foldl (seg_step climb) [] segs)"

definition path_normalize :: "string \<Rightarrow> string" where
  "path_normalize p =
     (if p = [] then ''.''
      else
        let isAbsolute = (hd p = CHR ''/'');
            trailingSeparator = (last p = CHR ''/'');
            q = join_slash (normalize_segments (\<not> isAbsolute) (split_slash p));
            q1 = (if q = [] \<and> \<not> isAbsolute then ''.'' else q);
            q2 = (if q1 \<noteq> [] \<and> trailingSeparator then q1 @ ''/'' else q1)
        in if isAbsolute then ''/'' @ q2 else q2)"

text \<open>\<^verbatim>\<open>path.join\<close>: the non-empty arguments joined by a slash, then normalised.\<close>

definition path_join :: "string list \<Rightarrow> string" where
  "path_join args =
     (let joined = join_slash (filter (\<lambda>a. a \<noteq> []) args)
      in if joined = [] then ''.'' else path_normalize joined)"

text \<open>
  \<^verbatim>\<open>path.resolve\<close>: the arguments are taken from the right up to the first absolute
  one; the process's working directory \<open>pcwd\<close> (an absolute path) is put in front when
  none is absolute. The result is normalised and has no trailing slash.
\<close>

fun resolve_args :: "string list \<Rightarrow> string" where
  "resolve_args [] = []"
| "resolve_args (a # as) =
     (let r = resolve_args as
      in if r \<noteq> [] \<and> hd r = CHR ''/'' then r
         else if a = [] then r
         else if r = [] then a
         else a @ ''/'' @ r)"

definition path_resolve :: "string \<Rightarrow> string list \<Rightarrow> string" where
  "path_resolve pcwd args =
     (let r = resolve_args (pcwd # args);
          q = join_slash (normalize_segments False (split_slash r))
      in ''/'' @ q)"

text \<open>\<^verbatim>\<open>path.basename\<close>: the last segment, trailing slashes ignored.\<close>

definition path_basename :: "string \<Rightarrow> string" where
  "path_basename p =
     (case filter (\<lambda>s. s \<noteq> []) (split_slash p) of
        [] \<Rightarrow> []
      | ss \<Rightarrow> last ss)"

subsection \<open>Builder\<close>

text \<open>
  \<^verbatim>\<open>function Builder(name, version, cwd)\<close>. The optional arguments are options;
  \<^verbatim>\<open>version || config.DEFAULT_VERSION\<close> and \<^verbatim>\<open>cwd || ''\<close> treat the empty string
  like a missing argument, because the empty string is falsy.
\<close>

record builder =
  name :: string
  version :: string
  dir :: string
  isUmbrella :: bool
  isMaster :: bool

definition or_default :: "string option \<Rightarrow> string \<Rightarrow> string" where
  "or_default v d = (case v of None \<Rightarrow> d | Some s \<Rightarrow> if s = [] then d else s)"

definition Builder :: "string \<Rightarrow> string option \<Rightarrow> string option \<Rightarrow> builder" where
  "Builder n v cwd =
     (let ver = or_default v DEFAULT_VERSION
      in \<lparr> name = n,
           version = ver,
           dir = path_join [or_default cwd [], DOCS_ROOT, n, ver],
           isUmbrella = (n = UMBRELLA_PACKAGE),
           isMaster = (ver = DEFAULT_VERSION) \<rparr>)"

text \<open>\<^verbatim>\<open>Builder.prototype.getTagName\<close>; \<^verbatim>\<open>[name, version].join('-')\<close> is written out.\<close>

definition getTagName :: "builder \<Rightarrow> string" where
  "getTagName b =
     (if isMaster b then version b
      else if isUmbrella b then ''v'' @ version b
      else name b @ ''-'' @ version b)"

subsection \<open>Bundler\<close>

text \<open>
  \<^verbatim>\<open>function Bundler(builder)\<close> takes a Builder instance or a version string of the
  umbrella docs; the argument is a tagged union here. A Bundler has the one field
  \<^verbatim>\<open>builder\<close>.
\<close>

datatype bundler_arg = ABuilder builder | AVersion string

record bundler =
  the_builder :: builder

definition Bundler :: "bundler_arg \<Rightarrow> bundler" where
  "Bundler a =
     (case a of
        AVersion v \<Rightarrow> \<lparr> the_builder = Builder UMBRELLA_PACKAGE (Some v) None \<rparr>
      | ABuilder b \<Rightarrow> \<lparr> the_builder = b \<rparr>)"

subsection \<open>The manifest\<close>

text \<open>
  A module entry of \<^verbatim>\<open>docs/manifest.json\<close>:
  \<^verbatim>\<open>{id, name, defaultService, versions}\<close>. The in-memory manifest is the list
  \<^verbatim>\<open>manifest.modules\<close>.
\<close>

record module_entry =
  mod_id :: string
  mod_name :: string
  defaultService :: string
  versions :: "string list"

text \<open>
  \<^verbatim>\<open>findWhere(collection, props)\<close> returns the first element that agrees with every
  property of \<open>props\<close>, or null. The properties to match are a predicate here; the
  result is the element's position, because callers mutate the object they get back.
\<close>

fun findWhere_from :: "nat \<Rightarrow> 'a list \<Rightarrow> ('a \<Rightarrow> bool) \<Rightarrow> nat option" where
  "findWhere_from i [] props = None"
| "findWhere_from i (obj # collection) props =
     (if props obj then Some i else findWhere_from (Suc i) collection props)"

definition findWhere :: "'a list \<Rightarrow> ('a \<Rightarrow> bool) \<Rightarrow> nat option" where
  "findWhere collection props = findWhere_from 0 collection props"

text \<open>The object \<^verbatim>\<open>findWhere\<close> returns, for callers that only read it.\<close>

definition findWhere_obj :: "'a list \<Rightarrow> ('a \<Rightarrow> bool) \<Rightarrow> 'a option" where
  "findWhere_obj collection props =
     (case findWhere collection props of
        None \<Rightarrow> None
      | Some i \<Rightarrow> Some (collection ! i))"

text \<open>
  \<^verbatim>\<open>sortByModId(a, b)\<close>. The last line,
  \<^verbatim>\<open>+(a.id > b.id) || +(a.id === b.id) - 1\<close>, is 1 when \<open>a.id > b.id\<close>, otherwise
  \<open>1 - 1 = 0\<close> when the ids are equal and \<open>0 - 1 = -1\<close> when they are not. Strings
  compare lexicographically by character code.
\<close>

definition sortByModId :: "module_entry \<Rightarrow> module_entry \<Rightarrow> int" where
  "sortByModId a b =
     (if mod_id a = UMBRELLA_PACKAGE then - 1
      else if mod_id b = UMBRELLA_PACKAGE then 1
      else if mod_id a > mod_id b then 1
      else (if mod_id a = mod_id b then 1 else 0) - 1)"

text \<open>
  \<^verbatim>\<open>Array.prototype.sort(comparefn)\<close>, as the insertion sort the engine runs on short
  arrays: each element in turn moves left past every element that compares greater
  than it. The sorted prefix is kept with its last element first. On modules with
  pairwise different ids \<^verbatim>\<open>sortByModId\<close> is a strict total order, and every sorting
  algorithm returns the same list.
\<close>

fun sort_insert :: "('a \<Rightarrow> 'a \<Rightarrow> int) \<Rightarrow> 'a \<Rightarrow> 'a list \<Rightarrow> 'a list" where
  "sort_insert comparefn element [] = [element]"
| "sort_insert comparefn element (tmp # left) =
     (if comparefn tmp element > 0 then tmp # sort_insert comparefn element left
      else element # tmp # left)"

definition array_sort :: "('a \<Rightarrow> 'a \<Rightarrow> int) \<Rightarrow> 'a list \<Rightarrow> 'a list" where
  "array_sort comparefn xs = rev (foldl (\<lambda>left element. sort_insert comparefn element left) [] xs)"

text \<open>Applying a mutation to the object \<^verbatim>\<open>findWhere\<close> would return.\<close>

fun update_first :: "('a \<Rightarrow> bool) \<Rightarrow> ('a \<Rightarrow> 'a) \<Rightarrow> 'a list \<Rightarrow> 'a list" where
  "update_first props f [] = []"
| "update_first props f (obj # collection) =
     (if props obj then f obj # collection else obj # update_first props f collection)"

text \<open>
  The in-memory part of \<^verbatim>\<open>Builder.prototype.updateManifest\<close>. After the first
  \<^verbatim>\<open>if\<close>, \<^verbatim>\<open>config\<close> is the first module whose id is the builder's name: either
  \<^verbatim>\<open>findWhere\<close> returned it, or it is the entry just pushed, and then no other module
  has that id. \<^verbatim>\<open>indexOf(...) === -1\<close> is non-membership, \<^verbatim>\<open>unshift\<close> puts the
  version in front.
\<close>

definition new_config :: "string \<Rightarrow> module_entry" where
  "new_config n =
     \<lparr> mod_id = n,
       mod_name = ''@google-cloud/'' @ n,
       defaultService = n,
       versions = [''master''] \<rparr>"

definition record_version :: "string \<Rightarrow> module_entry \<Rightarrow> module_entry" where
  "record_version v config =
     (if v \<notin> set (versions config) then config\<lparr> versions := v # versions config \<rparr>
      else config)"

definition updateModules :: "builder \<Rightarrow> module_entry list \<Rightarrow> module_entry list" where
  "updateModules b modules =
     (let modules1 =
            (case findWhere modules (\<lambda>m. mod_id m = name b) of
               None \<Rightarrow> array_sort sortByModId (modules @ [new_config (name b)])
             | Some i \<Rightarrow> modules)
      in update_first (\<lambda>m. mod_id m = name b) (record_version (version b)) modules1)"

subsection \<open>Collaborators and the state of a run\<close>

text \<open>
  Modelled from the spec: \<^verbatim>\<open>scripts/docs/parser.js\<close> is not among the sources. The
  parser turns a source file into structured JSON (a doc), a list of docs into a type
  dictionary (a list of entries with a \<^verbatim>\<open>contents\<close> path) and a type dictionary into a
  table of contents; the builder reads and writes the fields below and nothing else.
\<close>

record doc =
  doc_id :: string
  doc_parent :: "string option"
  doc_path :: string
  doc_overview :: string
  doc_body :: string

record type_entry =
  ty_name :: string
  contents :: string

record toc =
  tagName :: string
  toc_body :: string

text \<open>What a JSON file of the output tree holds.\<close>

datatype content =
    Doc doc
  | Types "type_entry list"
  | Toc toc
  | ManifestFile "module_entry list"

datatype error = Error string | TypeError string

text \<open>
  A declared dependency of the umbrella's \<^verbatim>\<open>package.json\<close>, as \<^verbatim>\<open>getDeps\<close>
  returns it, and a dependency resolved by \<^verbatim>\<open>bundle\<close>; \<^verbatim>\<open>semver.maxSatisfying\<close>
  returns null when no version satisfies the range.
\<close>

record dep =
  dep_name :: string
  dep_version :: string

record resolved_dep =
  rdep_name :: string
  rdep_version :: "string option"

text \<open>
  Everything the script takes from outside: the process's working directory, the
  \<^verbatim>\<open>semver\<close> library, the files git puts into the working tree at a ref, and the
  parser. \<^verbatim>\<open>Array.prototype.filter\<close> calls \<^verbatim>\<open>semver.valid\<close> with the element and
  its index, so \<open>semver_valid\<close> takes both: the index is the function's \<^verbatim>\<open>loose\<close>
  argument, and from the second element on a version passes that only the loose
  grammar accepts. \<^verbatim>\<open>semver.maxSatisfying\<close> is called without that argument and throws
  a TypeError when it comes to such a version; \<open>semver_maxSatisfying\<close> returns the
  error on the left, and on the right the maximum, None for null. \<open>tree ref\<close> lists
  the tracked files at \<open>ref\<close>, path (relative to the repository root, normalised) and
  text, in the order in which a glob reports them; \<open>package_dependencies ref\<close> is the \<^verbatim>\<open>dependencies\<close> object
  of the umbrella's \<^verbatim>\<open>package.json\<close> at \<open>ref\<close> in key order, None when it has none;
  \<open>config_IGNORE\<close> tells the files that \<^verbatim>\<open>config.IGNORE\<close> excludes;
  \<open>parser_parseFile\<close> returns the message of the error it throws on the left.
\<close>

record env =
  pcwd :: string
  semver_valid :: "string \<Rightarrow> nat \<Rightarrow> bool"
  semver_maxSatisfying :: "string list \<Rightarrow> string \<Rightarrow> error + string option"
  tree :: "string \<Rightarrow> (string \<times> string) list"
  package_dependencies :: "string \<Rightarrow> (string \<times> string) list option"
  config_IGNORE :: "string \<Rightarrow> bool"
  submodule_cwd :: string
  parser_parseFile :: "string \<Rightarrow> string \<Rightarrow> string + doc"
  parser_createTypesDictionary :: "doc list \<Rightarrow> type_entry list"
  parser_createToc :: "type_entry list \<Rightarrow> bool \<Rightarrow> toc"
  parser_createOverview :: "string \<Rightarrow> bool \<Rightarrow> string"

text \<open>
  Modelled from the spec: \<^verbatim>\<open>scripts/helpers.js\<close> (the \<^verbatim>\<open>git\<close> helper) is not among the
  sources. The spec gives \<^verbatim>\<open>checkout(tagOrDash)\<close>, \<^verbatim>\<open>submodule(branch, name)\<close>
  returning \<^verbatim>\<open>{cwd, checkout(tag)}\<close>, and \<^verbatim>\<open>deinit(submodule)\<close>; a checkout of \<^verbatim>\<open>-\<close>
  restores the prior checkout.
\<close>

datatype git_cmd =
    Checkout string
  | Submodule string string
  | SubmoduleCheckout string
  | Deinit

text \<open>
  The state a run reads and changes: the in-memory manifest, the JSON files and the
  copied markdown files of the output tree (by absolute path), the module cache of
  \<^verbatim>\<open>require\<close>, the ref the working tree is at with the one before it, and the git
  commands issued so far.
\<close>

record world =
  manifest :: "module_entry list"
  files :: "(string \<times> content) list"
  markdown :: "(string \<times> string) list"
  cache :: "(string \<times> content) list"
  head :: string
  prev :: string
  git_log :: "git_cmd list"

type_synonym 'a result = "(error + 'a) \<times> world"

definition git_checkout :: "string \<Rightarrow> world \<Rightarrow> world" where
  "git_checkout t w =
     w\<lparr> head := (if t = ''-'' then prev w else t),
        prev := head w,
        git_log := git_log w @ [Checkout t] \<rparr>"

definition git_submodule :: "string \<Rightarrow> string \<Rightarrow> world \<Rightarrow> world" where
  "git_submodule branch alias w = w\<lparr> git_log := git_log w @ [Submodule branch alias] \<rparr>"

definition submodule_checkout :: "string \<Rightarrow> world \<Rightarrow> world" where
  "submodule_checkout t w = w\<lparr> git_log := git_log w @ [SubmoduleCheckout t] \<rparr>"

definition git_deinit :: "world \<Rightarrow> world" where
  "git_deinit w = w\<lparr> git_log := git_log w @ [Deinit] \<rparr>"

subsection \<open>Files\<close>

fun store_put :: "'k \<Rightarrow> 'v \<Rightarrow> ('k \<times> 'v) list \<Rightarrow> ('k \<times> 'v) list" where
  "store_put k v [] = [(k, v)]"
| "store_put k v ((k', v') # kvs) =
     (if k = k' then (k, v) # kvs else (k', v') # store_put k v kvs)"

text \<open>\<^verbatim>\<open>fs.writeFileSync(p, JSON.stringify(json))\<close>; a relative path is taken from the
  process's working directory.\<close>

definition writeFileSync :: "env \<Rightarrow> string \<Rightarrow> content \<Rightarrow> world \<Rightarrow> world" where
  "writeFileSync e p json w = w\<lparr> files := store_put (path_resolve (pcwd e) [p]) json (files w) \<rparr>"

text \<open>\<^verbatim>\<open>Builder.prototype.write\<close>.\<close>

definition builder_write :: "env \<Rightarrow> builder \<Rightarrow> string \<Rightarrow> content \<Rightarrow> world \<Rightarrow> world" where
  "builder_write e b file json w = writeFileSync e (path_join [dir b, file]) json w"

text \<open>
  \<^verbatim>\<open>require(p)\<close> of a JSON file, \<open>p\<close> absolute: the object parsed at the first call
  stays in the module cache, and every later call returns that same object, whatever
  the file holds by then.
\<close>

definition js_require :: "string \<Rightarrow> world \<Rightarrow> content result" where
  "js_require p w =
     (case map_of (cache w) p of
        Some json \<Rightarrow> (Inr json, w)
      | None \<Rightarrow>
          (case map_of (files w) p of
             Some json \<Rightarrow> (Inr json, w\<lparr> cache := store_put p json (cache w) \<rparr>)
           | None \<Rightarrow> (Inl (Error (''Cannot find module '' @ p)), w)))"

definition types_path :: "env \<Rightarrow> builder \<Rightarrow> string" where
  "types_path e b = path_resolve (pcwd e) [dir b, TYPES_DICT]"

text \<open>\<^verbatim>\<open>Builder.prototype.getTypes\<close>.\<close>

definition getTypes :: "env \<Rightarrow> builder \<Rightarrow> world \<Rightarrow> content result" where
  "getTypes e b w = js_require (types_path e b) w"

fun drop_prefix :: "string \<Rightarrow> string \<Rightarrow> string option" where
  "drop_prefix [] s = Some s"
| "drop_prefix (c # cs) [] = None"
| "drop_prefix (c # cs) (d # ds) = (if c = d then drop_prefix cs ds else None)"

definition ends_with :: "string \<Rightarrow> string \<Rightarrow> bool" where
  "ends_with ext s = (length ext \<le> length s \<and> drop (length s - length ext) s = ext)"

text \<open>
  The globs of the script all have the form \<^verbatim>\<open>dir/*ext\<close> with a literal directory. A
  path matches when it has the directory's segments and its last segment ends in
  \<open>ext\<close> and does not start with a dot.
\<close>

definition glob_match :: "string \<Rightarrow> string \<Rightarrow> bool" where
  "glob_match pattern p =
     (let ps = split_slash pattern; qs = split_slash p
      in butlast ps = butlast qs \<and>
         (case last ps of
            [] \<Rightarrow> False
          | c # ext \<Rightarrow>
              c = CHR ''*'' \<and> last qs \<noteq> [] \<and> hd (last qs) \<noteq> CHR ''.'' \<and>
              ends_with ext (last qs)))"

subsection \<open>Building one package\<close>

text \<open>
  \<^verbatim>\<open>Builder.prototype.parseFile\<close>. \<^verbatim>\<open>readFileSync\<close> reads the working tree; its
  own failure is not caught. The parser's failure is caught and thrown again under a
  message that starts with the file.
\<close>

definition parseFile :: "env \<Rightarrow> string \<Rightarrow> world \<Rightarrow> error + doc" where
  "parseFile e file w =
     (let filePath = path_join [PACKAGES_ROOT, file]
      in case map_of (tree e (head w)) filePath of
           None \<Rightarrow> Inl (Error (''ENOENT: no such file or directory, open '' @
                               [CHR 0x27] @ filePath @ [CHR 0x27]))
         | Some text \<Rightarrow>
             (case parser_parseFile e filePath text of
                Inr json \<Rightarrow> Inr json
              | Inl message \<Rightarrow>
                  Inl (Error (''Unable to generate docs for file: '' @ file @
                              ''. Reason: '' @ message))))"

text \<open>
  \<^verbatim>\<open>file.replace(/^.+src\//, '')\<close>: the greedy match ends at the last \<^verbatim>\<open>src/\<close> that has
  at least one character before it; without one the name stays. File names hold no line
  terminator.
\<close>

fun after_last_src :: "string \<Rightarrow> string option" where
  "after_last_src [] = None"
| "after_last_src (c # cs) =
     (case after_last_src cs of
        Some r \<Rightarrow> Some r
      | None \<Rightarrow> drop_prefix ''src/'' (c # cs))"

definition strip_src :: "string \<Rightarrow> string" where
  "strip_src file =
     (case file of
        [] \<Rightarrow> []
      | c # cs \<Rightarrow> (case after_last_src cs of Some r \<Rightarrow> r | None \<Rightarrow> file))"

text \<open>
  The files \<^verbatim>\<open>globby.sync(path.join(name, 'src/*.js'), {cwd: PACKAGES_ROOT, ignore: config.IGNORE})\<close>
  reports, relative to the packages root.
\<close>

definition source_files :: "env \<Rightarrow> builder \<Rightarrow> world \<Rightarrow> string list" where
  "source_files e b w =
     concat (map (\<lambda>(p, text).
        (case drop_prefix ''packages/'' p of
           None \<Rightarrow> []
         | Some file \<Rightarrow>
             if glob_match (path_join [name b, ''src/*.js'']) file \<and> \<not> config_IGNORE e file
             then [file] else []))
       (tree e (head w)))"

text \<open>The body of the \<^verbatim>\<open>map\<close> over the source files in \<^verbatim>\<open>build\<close>; an exception
  leaves the loop at once.\<close>

fun build_docs :: "env \<Rightarrow> builder \<Rightarrow> string list \<Rightarrow> world \<Rightarrow> (doc list) result" where
  "build_docs e b [] w = (Inr [], w)"
| "build_docs e b (file # rest) w =
     (case parseFile e file w of
        Inl err \<Rightarrow> (Inl err, w)
      | Inr json0 \<Rightarrow>
          let outputFile = strip_src file @ ''on'';
              json = json0\<lparr> doc_path := path_basename outputFile \<rparr>;
              w1 = builder_write e b outputFile (Doc json) w
          in (case build_docs e b rest w1 of
                (Inl err, w2) \<Rightarrow> (Inl err, w2)
              | (Inr docs, w2) \<Rightarrow> (Inr (json # docs), w2)))"

text \<open>\<^verbatim>\<open>cp(MARKDOWN, this.dir)\<close>: every \<^verbatim>\<open>docs/*.md\<close> of the working tree is copied
  into the builder's directory.\<close>

definition MARKDOWN :: "env \<Rightarrow> string" where
  "MARKDOWN e = path_resolve (pcwd e) [DOCS_ROOT, ''../*.md'']"

definition copy_markdown :: "env \<Rightarrow> builder \<Rightarrow> world \<Rightarrow> world" where
  "copy_markdown e b w =
     foldl (\<lambda>w1 (p, text).
        if glob_match (MARKDOWN e) (path_resolve (pcwd e) [p])
        then w1\<lparr> markdown :=
                  store_put (path_resolve (pcwd e) [dir b, path_basename p]) text (markdown w1) \<rparr>
        else w1)
       w (tree e (head w))"

text \<open>
  \<^verbatim>\<open>Builder.prototype.build\<close>. The umbrella's build ends in
  \<^verbatim>\<open>new Bundler(this).bundle()\<close>, which builds every dependency in turn; \<open>bundle\<close> is
  that call, and its result is None when it does not return. Directories are not a
  part of the state: a file's path says where it is, and \<^verbatim>\<open>mkdir('-p', ...)\<close> changes
  nothing.
\<close>

definition build_with ::
  "(bundler \<Rightarrow> world \<Rightarrow> (unit result) option) \<Rightarrow> env \<Rightarrow> builder \<Rightarrow> world \<Rightarrow> (unit result) option" where
  "build_with bundle e b w =
     (let w1 = copy_markdown e b w
      in case build_docs e b (source_files e b w1) w1 of
           (Inl err, w2) \<Rightarrow> Some (Inl err, w2)
         | (Inr docs, w2) \<Rightarrow>
             let types = parser_createTypesDictionary e docs;
                 toc = (parser_createToc e types False)\<lparr> tagName := getTagName b \<rparr>;
                 w3 = builder_write e b TYPES_DICT (Types types) w2;
                 w4 = builder_write e b TOC (Toc toc) w3
             in if isUmbrella b then bundle (Bundler (ABuilder b)) w4
                else Some (Inr (), w4))"

subsection \<open>Bundling\<close>

text \<open>
  \<^verbatim>\<open>Bundler.prototype.add\<close>. The files to copy are listed before any is written. Each
  is loaded with \<^verbatim>\<open>require\<close>, so the overview is set on the cached object, which is
  then written under the umbrella's directory. \<^verbatim>\<open>json.parent || json.id\<close> takes the id
  when the parent is missing or empty. A file that holds no doc has no overview to set
  in this model and is copied as it is. Every listed file is in the store, so
  \<^verbatim>\<open>require\<close> finds it.
\<close>

definition add_files :: "env \<Rightarrow> builder \<Rightarrow> world \<Rightarrow> string list" where
  "add_files e b w =
     filter (\<lambda>p. glob_match (path_resolve (pcwd e) [dir b, ''*.json'']) p \<and>
                 p \<notin> set (map (\<lambda>file. path_resolve (pcwd e) [dir b, file]) [TYPES_DICT, TOC]))
       (map fst (files w))"

definition add_file :: "env \<Rightarrow> bundler \<Rightarrow> builder \<Rightarrow> string \<Rightarrow> world \<Rightarrow> world" where
  "add_file e self b file w =
     (case js_require file w of
        (Inl err, w1) \<Rightarrow> w1
      | (Inr json0, w1) \<Rightarrow>
          let json = (case json0 of
                        Doc d \<Rightarrow>
                          Doc (d\<lparr> doc_overview :=
                                    parser_createOverview e (or_default (doc_parent d) (doc_id d)) True \<rparr>)
                      | other \<Rightarrow> other);
              outputFile = path_join [name b, path_basename file];
              w2 = w1\<lparr> cache := store_put file json (cache w1) \<rparr>
          in builder_write e (the_builder self) outputFile json w2)"

definition add :: "env \<Rightarrow> bundler \<Rightarrow> builder \<Rightarrow> world \<Rightarrow> world" where
  "add e self b w = foldl (\<lambda>w1 file. add_file e self b file w1) w (add_files e b w)"

text \<open>
  \<^verbatim>\<open>Bundler.prototype.getDeps\<close>: the keys that start with \<^verbatim>\<open>@google-cloud\<close>, without
  their first \<^verbatim>\<open>@google-cloud/\<close>. \<^verbatim>\<open>Object.keys\<close> of a missing \<^verbatim>\<open>dependencies\<close> throws.
\<close>

fun replace_first :: "string \<Rightarrow> string \<Rightarrow> string \<Rightarrow> string" where
  "replace_first pat rep [] = (if pat = [] then rep else [])"
| "replace_first pat rep (c # cs) =
     (case drop_prefix pat (c # cs) of
        Some rest \<Rightarrow> rep @ rest
      | None \<Rightarrow> c # replace_first pat rep cs)"

definition deps_at :: "env \<Rightarrow> string \<Rightarrow> error + dep list" where
  "deps_at e ref =
     (case package_dependencies e ref of
        None \<Rightarrow> Inl (TypeError ''Cannot convert undefined or null to object'')
      | Some dependencies \<Rightarrow>
          Inr (map (\<lambda>(k, rng). \<lparr> dep_name = replace_first ''@google-cloud/'' [] k,
                                   dep_version = rng \<rparr>)
                 (filter (\<lambda>(k, rng). drop_prefix ''@google-cloud'' k \<noteq> None) dependencies)))"

definition getDeps :: "env \<Rightarrow> world \<Rightarrow> error + dep list" where
  "getDeps e w = deps_at e (head w)"

text \<open>\<^verbatim>\<open>config.versions.filter(semver.valid)\<close>.\<close>

definition valid_versions :: "env \<Rightarrow> string list \<Rightarrow> string list" where
  "valid_versions e vs =
     map fst (filter (\<lambda>(v, i). semver_valid e v i) (zip vs [0 ..< length vs]))"

text \<open>The first \<^verbatim>\<open>map\<close> of \<^verbatim>\<open>bundle\<close>: each declared dependency with the maximum
  recorded version that satisfies its range. A dependency without a manifest entry
  makes \<^verbatim>\<open>config.versions\<close> throw, and \<^verbatim>\<open>semver.maxSatisfying\<close> may throw; the first
  dependency at which either happens ends the \<^verbatim>\<open>map\<close>.\<close>

fun resolve_deps :: "env \<Rightarrow> module_entry list \<Rightarrow> dep list \<Rightarrow> error + resolved_dep list" where
  "resolve_deps e modules [] = Inr []"
| "resolve_deps e modules (d # ds) =
     (case findWhere_obj modules (\<lambda>m. mod_id m = dep_name d) of
        None \<Rightarrow> Inl (TypeError ''Cannot read property versions of null'')
      | Some config \<Rightarrow>
          (case semver_maxSatisfying e (valid_versions e (versions config)) (dep_version d) of
             Inl err \<Rightarrow> Inl err
           | Inr maxVersion \<Rightarrow>
               (case resolve_deps e modules ds of
                  Inl err \<Rightarrow> Inl err
                | Inr rs \<Rightarrow> Inr (\<lparr> rdep_name = dep_name d, rdep_version = maxVersion \<rparr> # rs))))"

text \<open>\<^verbatim>\<open>type.contents = path.join(dep.name, type.contents)\<close>.\<close>

definition prefix_contents :: "string \<Rightarrow> type_entry \<Rightarrow> type_entry" where
  "prefix_contents n type = type\<lparr> contents := path_join [n, contents type] \<rparr>"

text \<open>
  The second \<^verbatim>\<open>map\<close> of \<^verbatim>\<open>bundle\<close>, over the resolved dependencies. The entries
  \<^verbatim>\<open>getTypes\<close> returns are the objects of the module cache and are changed in place,
  so the loop's result names them by the path they are cached under; \<open>build\<close> is
  \<^verbatim>\<open>builder.build()\<close>. A cached value that is no array has no \<^verbatim>\<open>map\<close>.
\<close>

fun bundle_deps ::
  "(builder \<Rightarrow> world \<Rightarrow> (unit result) option) \<Rightarrow> env \<Rightarrow> bundler \<Rightarrow> resolved_dep list \<Rightarrow> world
    \<Rightarrow> ((string list) result) option" where
  "bundle_deps build e self [] w = Some (Inr [], w)"
| "bundle_deps build e self (d # ds) w =
     (let b = Builder (rdep_name d) (rdep_version d) (Some (submodule_cwd e));
          w1 = submodule_checkout (getTagName b) w
      in case build b w1 of
           None \<Rightarrow> None
         | Some (Inl err, w2) \<Rightarrow> Some (Inl err, w2)
         | Some (Inr u, w2) \<Rightarrow>
             (case getTypes e b (add e self b w2) of
                (Inl err, w4) \<Rightarrow> Some (Inl err, w4)
              | (Inr (Types ts), w4) \<Rightarrow>
                  let w5 = w4\<lparr> cache := store_put (types_path e b)
                                           (Types (map (prefix_contents (rdep_name d)) ts))
                                           (cache w4) \<rparr>
                  in (case bundle_deps build e self ds w5 of
                        None \<Rightarrow> None
                      | Some (Inl err, w6) \<Rightarrow> Some (Inl err, w6)
                      | Some (Inr refs, w6) \<Rightarrow> Some (Inr (types_path e b # refs), w6))
              | (Inr other, w4) \<Rightarrow> Some (Inl (TypeError ''map is not a function''), w4)))"

text \<open>The entries of a cached type dictionary, as they are when the combined
  dictionary is put together.\<close>

definition cached_types :: "world \<Rightarrow> string \<Rightarrow> type_entry list option" where
  "cached_types w p = (case map_of (cache w) p of Some (Types ts) \<Rightarrow> Some ts | _ \<Rightarrow> None)"

text \<open>\<^verbatim>\<open>flatten(depTypes)\<close>, the dependency arrays one after the other.\<close>

fun flatten_cached :: "world \<Rightarrow> string list \<Rightarrow> type_entry list" where
  "flatten_cached w [] = []"
| "flatten_cached w (p # ps) =
     (case cached_types w p of Some ts \<Rightarrow> ts | None \<Rightarrow> []) @ flatten_cached w ps"

text \<open>\<^verbatim>\<open>Bundler.prototype.bundle\<close>, with \<open>build\<close> for the builds of the dependencies.\<close>

definition bundle_with ::
  "(builder \<Rightarrow> world \<Rightarrow> (unit result) option) \<Rightarrow> env \<Rightarrow> bundler \<Rightarrow> world \<Rightarrow> (unit result) option" where
  "bundle_with build e self w =
     (case getTypes e (the_builder self) w of
        (Inl err, w1) \<Rightarrow> Some (Inl err, w1)
      | (Inr baseTypes, w1) \<Rightarrow>
          (case getDeps e w1 of
             Inl err \<Rightarrow> Some (Inl err, w1)
           | Inr ds \<Rightarrow>
               (case resolve_deps e (manifest w1) ds of
                  Inl err \<Rightarrow> Some (Inl err, w1)
                | Inr deps \<Rightarrow>
                    (case bundle_deps build e self deps (git_submodule ''master'' ''bundler'' w1) of
                       None \<Rightarrow> None
                     | Some (Inl err, w3) \<Rightarrow> Some (Inl err, w3)
                     | Some (Inr depTypes, w3) \<Rightarrow>
                         (case cached_types w3 (types_path e (the_builder self)) of
                            None \<Rightarrow> Some (Inl (TypeError ''concat is not a function''), w3)
                          | Some base \<Rightarrow>
                              let types = base @ flatten_cached w3 depTypes;
                                  toc = (parser_createToc e types True)
                                          \<lparr> tagName := getTagName (the_builder self) \<rparr>;
                                  w4 = builder_write e (the_builder self) TYPES_DICT (Types types) w3;
                                  w5 = builder_write e (the_builder self) TOC (Toc toc) w4
                              in Some (Inr (), git_deinit w5))))))"

text \<open>
  \<^verbatim>\<open>build\<close> and \<^verbatim>\<open>bundle\<close> call each other: the umbrella's build bundles, and
  bundling builds every dependency, one of which may be the umbrella again. The first
  argument bounds how deep bundles may nest; None says that the bound was reached.
\<close>

fun Bundler_bundle :: "nat \<Rightarrow> env \<Rightarrow> bundler \<Rightarrow> world \<Rightarrow> (unit result) option" where
  "Bundler_bundle 0 e self w = None"
| "Bundler_bundle (Suc n) e self w = bundle_with (build_with (Bundler_bundle n e) e) e self w"

definition build :: "nat \<Rightarrow> env \<Rightarrow> builder \<Rightarrow> world \<Rightarrow> (unit result) option" where
  "build n e b w = build_with (Bundler_bundle n e) e b w"

subsection \<open>Propagating a dependency's release\<close>

text \<open>
  The loop of \<^verbatim>\<open>Bundler.updateDep\<close> over the umbrella versions it visits. A missing
  dependency makes \<^verbatim>\<open>dep.version\<close> throw, after the checkout was restored; an error
  of \<^verbatim>\<open>semver.maxSatisfying\<close> leaves the loop there as well.
\<close>

fun updateDep_loop :: "env \<Rightarrow> builder \<Rightarrow> string list \<Rightarrow> string list \<Rightarrow> world \<Rightarrow> unit result" where
  "updateDep_loop e b vs [] w = (Inr (), w)"
| "updateDep_loop e b vs (bundleVersion # rest) w =
     (let self = Bundler (AVersion bundleVersion);
          w1 = git_checkout (getTagName (the_builder self)) w
      in case getDeps e w1 of
           Inl err \<Rightarrow> (Inl err, w1)
         | Inr deps \<Rightarrow>
             let d = findWhere_obj deps (\<lambda>d. dep_name d = name b);
                 w2 = git_checkout ''-'' w1
             in (case d of
                   None \<Rightarrow> (Inl (TypeError ''Cannot read property version of null''), w2)
                 | Some d \<Rightarrow>
                     (case semver_maxSatisfying e vs (dep_version d) of
                        Inl err \<Rightarrow> (Inl err, w2)
                      | Inr maxVersion \<Rightarrow>
                          if maxVersion \<noteq> Some (version b)
                          then (Inr (), w2)
                          else updateDep_loop e b vs rest (add e self b w2))))"

text \<open>
  \<^verbatim>\<open>Bundler.updateDep\<close>. The loop runs while \<^verbatim>\<open>i < bundleVersions.length - 1\<close>, that
  is over all recorded umbrella versions but the last.
\<close>

definition updateDep :: "env \<Rightarrow> builder \<Rightarrow> world \<Rightarrow> unit result" where
  "updateDep e b w =
     (if isMaster b
      then (Inl (Error ''Must supply valid version to update bundles with.''), w)
      else
        (case findWhere_obj (manifest w) (\<lambda>m. mod_id m = UMBRELLA_PACKAGE) of
           None \<Rightarrow> (Inl (TypeError ''Cannot read property versions of null''), w)
         | Some bundleConfig \<Rightarrow>
             let bundleVersions = versions bundleConfig
             in (case findWhere_obj (manifest w) (\<lambda>m. mod_id m = name b) of
                   None \<Rightarrow> (Inl (TypeError ''Cannot read property versions of null''), w)
                 | Some config \<Rightarrow>
                     updateDep_loop e b (valid_versions e (versions config))
                       (take (length bundleVersions - 1) bundleVersions) w)))"

subsection \<open>Recording a build in the manifest\<close>

definition manifestPath :: "env \<Rightarrow> string" where
  "manifestPath e = path_resolve (pcwd e) [DOCS_ROOT, ''../manifest.json'']"

text \<open>\<^verbatim>\<open>Builder.prototype.updateManifest\<close>: the manifest is changed in memory and
  written out.\<close>

definition updateManifest :: "env \<Rightarrow> builder \<Rightarrow> world \<Rightarrow> world" where
  "updateManifest e b w =
     (let w1 = w\<lparr> manifest := updateModules b (manifest w) \<rparr>
      in writeFileSync e (manifestPath e) (ManifestFile (manifest w1)) w1)"

subsection \<open>The exported entry point\<close>

text \<open>
  The function \<^verbatim>\<open>build(name, version)\<close> that the module exports: it checks the
  release's tag out, builds, restores the checkout, records the build and propagates
  a dependency's release. An exception leaves it at once, the checkout not restored.
  The first argument bounds the nesting of bundles, as for \<open>build\<close>.
\<close>

definition exports_build ::
  "nat \<Rightarrow> env \<Rightarrow> string \<Rightarrow> string option \<Rightarrow> world \<Rightarrow> (unit result) option" where
  "exports_build fuel e nm v w =
     (let builder = Builder nm v None;
          w1 = git_checkout (getTagName builder) w
      in case build fuel e builder w1 of
           None \<Rightarrow> None
         | Some (Inl err, w2) \<Rightarrow> Some (Inl err, w2)
         | Some (Inr u, w2) \<Rightarrow>
             let w3 = updateManifest e builder (git_checkout ''-'' w2)
             in if \<not> isUmbrella builder \<and> \<not> isMaster builder
                then Some (updateDep e builder w3)
                else Some (Inr (), w3))"

subsection \<open>Notions used to state the properties\<close>

text \<open>The versions the manifest records for a module; none when it has no entry.\<close>

definition module_versions :: "string \<Rightarrow> module_entry list \<Rightarrow> string list" where
  "module_versions n modules =
     (case findWhere_obj modules (\<lambda>m. mod_id m = n) of
        None \<Rightarrow> []
      | Some config \<Rightarrow> versions config)"

text \<open>The umbrella entry is first: when some module has the umbrella's id, the first
  module of the list has it.\<close>

definition umbrella_first :: "module_entry list \<Rightarrow> bool" where
  "umbrella_first modules =
     (case modules of
        [] \<Rightarrow> True
      | m # ms \<Rightarrow> (\<exists>x\<in>set modules. mod_id x = UMBRELLA_PACKAGE) \<longrightarrow> mod_id m = UMBRELLA_PACKAGE)"

text \<open>The tag \<^verbatim>\<open>updateDep\<close> checks out for an umbrella version.\<close>

definition umbrella_tag :: "string \<Rightarrow> string" where
  "umbrella_tag u = getTagName (the_builder (Bundler (AVersion u)))"

text \<open>The range an umbrella version declares for a package; none when its
  \<^verbatim>\<open>package.json\<close> cannot be read that far.\<close>

definition declared_range :: "env \<Rightarrow> string \<Rightarrow> string \<Rightarrow> string option" where
  "declared_range e u n =
     (case deps_at e (umbrella_tag u) of
        Inl err \<Rightarrow> None
      | Inr deps \<Rightarrow>
          (case findWhere_obj deps (\<lambda>d. dep_name d = n) of
             None \<Rightarrow> None
           | Some d \<Rightarrow> Some (dep_version d)))"

text \<open>The builder's version is the maximum of the versions \<open>vs\<close> that satisfies the
  range umbrella version \<open>u\<close> declares for the builder's package, as
  \<^verbatim>\<open>semver.maxSatisfying\<close> returns it.\<close>

definition still_max :: "env \<Rightarrow> builder \<Rightarrow> string list \<Rightarrow> string \<Rightarrow> bool" where
  "still_max e b vs u =
     (case declared_range e u (name b) of
        None \<Rightarrow> False
      | Some rng \<Rightarrow> semver_maxSatisfying e vs rng = Inr (Some (version b)))"

text \<open>The tags checked out between two states of a run, restores left out.\<close>

definition checkout_tag :: "git_cmd \<Rightarrow> string list" where
  "checkout_tag c = (case c of Checkout t \<Rightarrow> (if t = ''-'' then [] else [t]) | _ \<Rightarrow> [])"

definition checked_out :: "world \<Rightarrow> world \<Rightarrow> string list" where
  "checked_out w w' = concat (map checkout_tag (drop (length (git_log w)) (git_log w')))"

text \<open>A state with another position of the working tree and another git history.\<close>

definition regit :: "string \<Rightarrow> string \<Rightarrow> git_cmd list \<Rightarrow> world \<Rightarrow> world" where
  "regit h p g w = w\<lparr> head := h, prev := p, git_log := g \<rparr>"

text \<open>The manifest and the output tree, with the module cache: all of a state but the
  position of the working tree.\<close>

definition output_state ::
  "world \<Rightarrow> module_entry list \<times> (string \<times> content) list \<times> (string \<times> string) list \<times> (string \<times> content) list" where
  "output_state w = (manifest w, files w, markdown w, cache w)"

text \<open>\<^verbatim>\<open>bundler.add(builder)\<close> for each of the umbrella versions \<open>us\<close> in turn.\<close>

definition add_to_bundles :: "env \<Rightarrow> builder \<Rightarrow> string list \<Rightarrow> world \<Rightarrow> world" where
  "add_to_bundles e b us w = foldl (\<lambda>w1 u. add e (Bundler (AVersion u)) b w1) w us"

text \<open>A source file that \<^verbatim>\<open>Builder.prototype.parseFile\<close> turns into a doc.\<close>

definition parses :: "env \<Rightarrow> world \<Rightarrow> string \<Rightarrow> bool" where
  "parses e w file = (case parseFile e file w of Inr json \<Rightarrow> True | Inl err \<Rightarrow> False)"

text \<open>A file name: not empty, without a slash, and neither \<^verbatim>\<open>.\<close> nor \<^verbatim>\<open>..\<close>.\<close>

definition plain :: "string \<Rightarrow> bool" where
  "plain f = (f \<noteq> [] \<and> CHR ''/'' \<notin> set f \<and> f \<noteq> ''.'' \<and> f \<noteq> ''..'')"

text \<open>A segment that normalising keeps where it stands.\<close>

definition seg_ok :: "string \<Rightarrow> bool" where
  "seg_ok s = (s \<noteq> [] \<and> s \<noteq> ''.'' \<and> s \<noteq> ''..'')"

text \<open>The last segment of a path, and the segments of the directory that
  \<^verbatim>\<open>path.resolve\<close> puts in front of a last argument.\<close>

definition last_seg :: "string \<Rightarrow> string" where
  "last_seg p = last (split_slash p)"

definition resolved_dir :: "string \<Rightarrow> string list \<Rightarrow> string list" where
  "resolved_dir cwd0 args =
     (if resolve_args (cwd0 # args) = [] then []
      else normalize_segments False (split_slash (resolve_args (cwd0 # args))))"

text \<open>The Builder that \<^verbatim>\<open>bundle\<close> makes for a resolved dependency.\<close>

definition dep_builder :: "env \<Rightarrow> resolved_dep \<Rightarrow> builder" where
  "dep_builder e d = Builder (rdep_name d) (rdep_version d) (Some (submodule_cwd e))"

text \<open>
  The type dictionary that \<^verbatim>\<open>build\<close> makes of the package's sources as the working
  tree has them in state \<open>w\<close>; None when one of them does not parse.
\<close>

definition built_types :: "env \<Rightarrow> builder \<Rightarrow> world \<Rightarrow> type_entry list option" where
  "built_types e b w =
     (case fst (build_docs e b (source_files e b w) w) of
        Inr docs \<Rightarrow> Some (parser_createTypesDictionary e docs)
      | Inl err \<Rightarrow> None)"

subsection \<open>A small environment for examples\<close>

text \<open>
  Versions \<^verbatim>\<open>x.y.z\<close> of decimal numbers, and the ranges \<^verbatim>\<open>x.y.z\<close> (that version) and
  \<^verbatim>\<open>^x.y.z\<close> (at least that version, with the same leftmost non-zero number), as
  \<^verbatim>\<open>semver\<close> reads them.
\<close>

definition digit_of :: "char \<Rightarrow> nat option" where
  "digit_of = map_of
     [(CHR ''0'', 0), (CHR ''1'', 1), (CHR ''2'', 2), (CHR ''3'', 3), (CHR ''4'', 4),
      (CHR ''5'', 5), (CHR ''6'', 6), (CHR ''7'', 7), (CHR ''8'', 8), (CHR ''9'', 9)]"

fun parse_digits :: "nat \<Rightarrow> string \<Rightarrow> nat option" where
  "parse_digits acc [] = Some acc"
| "parse_digits acc (c # cs) =
     (case digit_of c of None \<Rightarrow> None | Some d \<Rightarrow> parse_digits (10 * acc + d) cs)"

definition parse_number :: "string \<Rightarrow> nat option" where
  "parse_number s = (if s = [] then None else parse_digits 0 s)"

definition parse_version :: "string \<Rightarrow> (nat \<times> nat \<times> nat) option" where
  "parse_version s =
     (case split_char CHR ''.'' s of
        [a, b, c] \<Rightarrow>
          (case (parse_number a, parse_number b, parse_number c) of
             (Some x, Some y, Some z) \<Rightarrow> Some (x, y, z)
           | _ \<Rightarrow> None)
      | _ \<Rightarrow> None)"

definition version_less :: "nat \<times> nat \<times> nat \<Rightarrow> nat \<times> nat \<times> nat \<Rightarrow> bool" where
  "version_less s t =
     (case (s, t) of
        ((a, b, c), (x, y, z)) \<Rightarrow> a < x \<or> (a = x \<and> (b < y \<or> (b = y \<and> c < z))))"

definition satisfies :: "nat \<times> nat \<times> nat \<Rightarrow> string \<Rightarrow> bool" where
  "satisfies t rng =
     (case rng of
        [] \<Rightarrow> False
      | c # cs \<Rightarrow>
          if c = CHR ''^'' then
            (case (parse_version cs, t) of
               (Some (a, b, c), (x, y, z)) \<Rightarrow>
                 \<not> version_less (x, y, z) (a, b, c) \<and>
                 (if a > 0 then x = a
                  else if b > 0 then x = 0 \<and> y = b
                  else x = 0 \<and> y = 0 \<and> z = c)
             | (None, _) \<Rightarrow> False)
          else parse_version rng = Some t)"

definition max_satisfying :: "string list \<Rightarrow> string \<Rightarrow> string option" where
  "max_satisfying vs rng =
     foldl (\<lambda>best v.
        (case parse_version v of
           None \<Rightarrow> best
         | Some t \<Rightarrow>
             if satisfies t rng \<and>
                (case best of
                   None \<Rightarrow> True
                 | Some bv \<Rightarrow>
                     (case parse_version bv of None \<Rightarrow> True | Some bt \<Rightarrow> version_less bt t))
             then Some v else best))
       None vs"

text \<open>
  \<^verbatim>\<open>semver.maxSatisfying\<close> tests the versions against the range one after the other.
  A range it cannot read satisfies none, and the result is null; otherwise the first
  version that is no \<^verbatim>\<open>x.y.z\<close> makes it throw.
\<close>

definition valid_range :: "string \<Rightarrow> bool" where
  "valid_range rng =
     (case rng of
        [] \<Rightarrow> False
      | c # cs \<Rightarrow> if c = CHR ''^'' then parse_version cs \<noteq> None else parse_version rng \<noteq> None)"

definition maxSatisfying :: "string list \<Rightarrow> string \<Rightarrow> error + string option" where
  "maxSatisfying vs rng =
     (if \<not> valid_range rng then Inr None
      else
        (case filter (\<lambda>v. v \<noteq> [] \<and> parse_version v = None) vs of
           [] \<Rightarrow> Inr (max_satisfying vs rng)
         | v # rest \<Rightarrow> Inl (TypeError (''Invalid Version: '' @ v))))"

text \<open>
  A repository with the package \<^verbatim>\<open>bigtable\<close> and the umbrella package. Umbrella
  release 0.45.0 depends on bigtable \<^verbatim>\<open>^0.4.0\<close>, release 0.44.0 on \<^verbatim>\<open>^0.3.0\<close>. The
  parser refuses a file whose text is \<^verbatim>\<open>syntax error\<close>.
\<close>

definition example_tree :: "(string \<times> string) list" where
  "example_tree =
     [(''docs/faq.md'', ''FAQ''),
      (''packages/bigtable/src/index.js'', ''bigtable''),
      (''packages/bigtable/src/table.js'', ''table''),
      (''packages/google-cloud/src/index.js'', ''gcloud'')]"

definition example_env :: env where
  "example_env =
     \<lparr> pcwd = ''/repo'',
       semver_valid = (\<lambda>v i. parse_version v \<noteq> None),
       semver_maxSatisfying = maxSatisfying,
       tree = (\<lambda>ref. example_tree),
       package_dependencies =
         (\<lambda>ref. if ref = ''v0.44.0''
                 then Some [(''@google-cloud/bigtable'', ''^0.3.0''), (''extend'', ''^3.0.0'')]
                 else Some [(''@google-cloud/bigtable'', ''^0.4.0''), (''extend'', ''^3.0.0'')]),
       config_IGNORE = (\<lambda>file. False),
       submodule_cwd = ''/repo/bundler'',
       parser_parseFile =
         (\<lambda>filePath text.
            if text = ''syntax error'' then Inl ''Unexpected token''
            else Inr \<lparr> doc_id = text, doc_parent = None, doc_path = [],
                       doc_overview = [], doc_body = text \<rparr>),
       parser_createTypesDictionary =
         map (\<lambda>d. \<lparr> ty_name = doc_id d, contents = doc_path d \<rparr>),
       parser_createToc = (\<lambda>types bundled. \<lparr> tagName = [], toc_body = concat (map ty_name types) \<rparr>),
       parser_createOverview = (\<lambda>service bundled. service) \<rparr>"

definition empty_world :: world where
  "empty_world =
     \<lparr> manifest = [], files = [], markdown = [], cache = [],
       head = ''master'', prev = ''master'', git_log = [] \<rparr>"

text \<open>
  The umbrella releases 0.44.0 and then 0.45.0 are recorded, then release 0.4.1 of
  \<^verbatim>\<open>bigtable\<close>; \<open>built_world\<close> is the state after the docs of that release were
  built as well. In \<open>master_world\<close> only the umbrella's master build is recorded.
\<close>

definition bigtable_041 :: builder where
  "bigtable_041 = Builder ''bigtable'' (Some ''0.4.1'') None"

definition recorded_world :: world where
  "recorded_world =
     updateManifest example_env bigtable_041
       (updateManifest example_env (Builder ''google-cloud'' (Some ''0.45.0'') None)
          (updateManifest example_env (Builder ''google-cloud'' (Some ''0.44.0'') None)
             empty_world))"

definition built_world :: world where
  "built_world =
     (case build 0 example_env bigtable_041 empty_world of
        Some (r, w) \<Rightarrow> w\<lparr> manifest := manifest recorded_world \<rparr>
      | None \<Rightarrow> recorded_world)"

definition master_world :: world where
  "master_world =
     updateManifest example_env bigtable_041
       (updateManifest example_env (Builder ''google-cloud'' None None) empty_world)"

text \<open>The same repository with a second source file that the parser refuses.\<close>

definition broken_env :: env where
  "broken_env =
     example_env\<lparr> tree := (\<lambda>ref.
        [(''packages/bigtable/src/index.js'', ''bigtable''),
         (''packages/bigtable/src/table.js'', ''syntax error''),
         (''packages/bigtable/src/zone.js'', ''zone'')]) \<rparr>"

text \<open>The manifest entries of these states.\<close>

definition umbrella_config :: module_entry where
  "umbrella_config =
     \<lparr> mod_id = ''google-cloud'', mod_name = ''@google-cloud/google-cloud'',
       defaultService = ''google-cloud'', versions = [''0.45.0'', ''0.44.0'', ''master''] \<rparr>"

definition bigtable_config :: module_entry where
  "bigtable_config =
     \<lparr> mod_id = ''bigtable'', mod_name = ''@google-cloud/bigtable'',
       defaultService = ''bigtable'', versions = [''0.4.1'', ''master''] \<rparr>"

definition master_config :: module_entry where
  "master_config =
     \<lparr> mod_id = ''google-cloud'', mod_name = ''@google-cloud/google-cloud'',
       defaultService = ''google-cloud'', versions = [''master''] \<rparr>"

text \<open>
  The umbrella release 0.45.0 and the state in which its own docs are written and its
  bundle is not yet made; the one dependency as \<^verbatim>\<open>bundle\<close> resolves it there.
\<close>

definition umbrella_045 :: builder where
  "umbrella_045 = Builder ''google-cloud'' (Some ''0.45.0'') None"

definition umbrella_world :: world where
  "umbrella_world =
     (case build_with (\<lambda>self w. Some (Inr (), w)) example_env umbrella_045 recorded_world of
        Some (r, w) \<Rightarrow> w
      | None \<Rightarrow> recorded_world)"

definition bigtable_resolved :: resolved_dep where
  "bigtable_resolved = \<lparr> rdep_name = ''bigtable'', rdep_version = Some ''0.4.1'' \<rparr>"

text \<open>
  One process calls the exported \<^verbatim>\<open>build\<close> for the umbrella release 0.45.0 and then
  for the release 0.46.0; both declare \<^verbatim>\<open>@google-cloud/bigtable\<close> at \<^verbatim>\<open>^0.4.0\<close>.
\<close>

definition bundled_once :: world where
  "bundled_once =
     (case exports_build 1 example_env ''google-cloud'' (Some ''0.45.0'') recorded_world of
        Some (r, w) \<Rightarrow> w
      | None \<Rightarrow> recorded_world)"

definition bundled_again :: world where
  "bundled_again =
     (case exports_build 1 example_env ''google-cloud'' (Some ''0.46.0'') bundled_once of
        Some (r, w) \<Rightarrow> w
      | None \<Rightarrow> bundled_once)"

text \<open>
  The loose grammar of \<^verbatim>\<open>semver\<close> reads a version with \<^verbatim>\<open>=\<close> signs in front of it,
  the strict one does not. In \<open>loose_env\<close> the filter keeps such a version when it is
  not the first of the list, and in \<open>loose_world\<close> the manifest records \<^verbatim>\<open>=0.4.0\<close> for
  \<^verbatim>\<open>bigtable\<close>.
\<close>

definition loose_version :: "string \<Rightarrow> (nat \<times> nat \<times> nat) option" where
  "loose_version s = parse_version (dropWhile (\<lambda>c. c = CHR ''='') s)"

definition loose_env :: env where
  "loose_env =
     example_env\<lparr> semver_valid :=
        (\<lambda>v i. parse_version v \<noteq> None \<or> (0 < i \<and> loose_version v \<noteq> None)) \<rparr>"

definition loose_world :: world where
  "loose_world =
     umbrella_world\<lparr> manifest :=
        [umbrella_config, bigtable_config\<lparr> versions := [''0.4.1'', ''=0.4.0'', ''master''] \<rparr>] \<rparr>"

section \<open>Verified properties\<close>

subsection \<open>Facts about \<^verbatim>\<open>findWhere\<close>, the sort and the manifest\<close>


lemma findWhere_from_None: "findWhere_from i xs P = None \<longleftrightarrow> (\<forall>x\<in>set xs. \<not> P x)"
  by (induction xs arbitrary: i) auto

lemma findWhere_None: "findWhere xs P = None \<longleftrightarrow> (\<forall>x\<in>set xs. \<not> P x)"
  by (simp add: findWhere_def findWhere_from_None)

lemma findWhere_from_shift:
  "findWhere_from (Suc i) xs P = map_option Suc (findWhere_from i xs P)"
  by (induction xs arbitrary: i) auto

lemma findWhere_obj_Nil: "findWhere_obj [] P = None"
  by (simp add: findWhere_obj_def findWhere_def)

lemma findWhere_obj_Cons:
  "findWhere_obj (x # xs) P = (if P x then Some x else findWhere_obj xs P)"
  by (simp add: findWhere_obj_def findWhere_def findWhere_from_shift[of 0] split: option.splits)

lemma findWhere_obj_None: "findWhere_obj xs P = None \<longleftrightarrow> (\<forall>x\<in>set xs. \<not> P x)"
  by (induction xs) (auto simp: findWhere_obj_Nil findWhere_obj_Cons)

lemma findWhere_obj_Some: "findWhere_obj xs P = Some x \<Longrightarrow> x \<in> set xs \<and> P x"
  by (induction xs) (auto simp: findWhere_obj_Nil findWhere_obj_Cons split: if_splits)

lemma findWhere_obj_update_first:
  "(\<And>x. P (f x) = P x) \<Longrightarrow>
   findWhere_obj (update_first P f xs) P = map_option f (findWhere_obj xs P)"
  by (induction xs) (auto simp: findWhere_obj_Nil findWhere_obj_Cons)

lemma set_sort_insert: "set (sort_insert cmp x l) = insert x (set l)"
  by (induction l) auto

lemma set_foldl_sort_insert:
  "set (foldl (\<lambda>left element. sort_insert cmp element left) l xs) = set l \<union> set xs"
  by (induction xs arbitrary: l) (auto simp: set_sort_insert)

lemma set_array_sort: "set (array_sort cmp xs) = set xs"
  by (simp add: array_sort_def set_foldl_sort_insert)

lemma mod_id_record_version: "mod_id (record_version v c) = mod_id c"
  by (simp add: record_version_def)

lemma count_record_version:
  "count_list (versions (record_version v c)) v = max 1 (count_list (versions c) v)"
  by (auto simp: record_version_def count_list_0_iff max_def Suc_le_eq)

lemma module_versions_updateModules:
  "count_list (module_versions (name b) (updateModules b ms)) (version b) =
   max 1 (count_list (module_versions (name b) ms) (version b))"
proof -
  let ?P = "\<lambda>m. mod_id m = name b"
  let ?f = "record_version (version b)"
  have pres: "\<And>x. ?P (?f x) = ?P x" by (simp add: mod_id_record_version)
  show ?thesis
  proof (cases "findWhere_obj ms ?P")
    case None
    then have none: "findWhere ms ?P = None"
      by (simp add: findWhere_obj_None findWhere_None)
    let ?s = "array_sort sortByModId (ms @ [new_config (name b)])"
    have "findWhere_obj ?s ?P \<noteq> None"
      by (simp add: findWhere_obj_None set_array_sort new_config_def)
    then obtain c where c: "findWhere_obj ?s ?P = Some c" by auto
    from findWhere_obj_Some[OF c] None have "c = new_config (name b)"
      by (auto simp: set_array_sort findWhere_obj_None)
    with c have "findWhere_obj (update_first ?P ?f ?s) ?P = Some (?f (new_config (name b)))"
      by (simp add: findWhere_obj_update_first[of ?P ?f, OF pres])
    then have "module_versions (name b) (updateModules b ms) = versions (?f (new_config (name b)))"
      using none by (simp add: module_versions_def updateModules_def)
    moreover have "module_versions (name b) ms = []"
      using None by (simp add: module_versions_def)
    ultimately show ?thesis
      by (simp add: count_record_version) (simp add: new_config_def)
  next
    case (Some c)
    then have "findWhere ms ?P \<noteq> None"
      using findWhere_obj_Some[OF Some] by (auto simp: findWhere_None)
    then obtain i where "findWhere ms ?P = Some i" by auto
    then have "updateModules b ms = update_first ?P ?f ms"
      by (simp add: updateModules_def)
    then show ?thesis
      using Some
      by (simp add: module_versions_def findWhere_obj_update_first[of ?P ?f, OF pres]
                    count_record_version)
  qed
qed

lemma sortByModId_pos:
  "sortByModId a b > 0 \<Longrightarrow> mod_id a \<noteq> UMBRELLA_PACKAGE"
  by (auto simp: sortByModId_def split: if_splits)

lemma sortByModId_umbrella:
  "mod_id b = UMBRELLA_PACKAGE \<Longrightarrow> mod_id a \<noteq> UMBRELLA_PACKAGE \<Longrightarrow> sortByModId a b > 0"
  by (auto simp: sortByModId_def)

definition umbrella_last :: "module_entry list \<Rightarrow> bool" where
  "umbrella_last l = ((\<exists>x\<in>set l. mod_id x = UMBRELLA_PACKAGE) \<longrightarrow> l \<noteq> [] \<and> mod_id (last l) = UMBRELLA_PACKAGE)"

lemma sort_insert_not_Nil: "sort_insert cmp x l \<noteq> []"
  by (cases l) auto

lemma umbrella_last_sort_insert:
  "umbrella_last l \<Longrightarrow> umbrella_last (sort_insert sortByModId x l)"
proof (induction l)
  case Nil
  then show ?case by (simp add: umbrella_last_def)
next
  case (Cons t l)
  show ?case
  proof (cases "sortByModId t x > 0")
    case True
    then have nt: "mod_id t \<noteq> UMBRELLA_PACKAGE" by (rule sortByModId_pos)
    with Cons.prems have "umbrella_last l"
      by (auto simp: umbrella_last_def split: if_splits)
    then have "umbrella_last (sort_insert sortByModId x l)" by (rule Cons.IH)
    with nt True show ?thesis
      by (auto simp: umbrella_last_def sort_insert_not_Nil)
  next
    case False
    then have "mod_id x = UMBRELLA_PACKAGE \<Longrightarrow> mod_id t = UMBRELLA_PACKAGE"
      using sortByModId_umbrella[of x t] by auto
    with False Cons.prems show ?thesis
      by (auto simp: umbrella_last_def)
  qed
qed

lemma umbrella_last_foldl:
  "umbrella_last l \<Longrightarrow>
   umbrella_last (foldl (\<lambda>left element. sort_insert sortByModId element left) l xs)"
  by (induction xs arbitrary: l) (auto simp: umbrella_last_sort_insert)

lemma umbrella_first_rev: "umbrella_last l \<Longrightarrow> umbrella_first (rev l)"
  by (cases l rule: rev_cases) (auto simp: umbrella_last_def umbrella_first_def split: list.splits)

lemma umbrella_first_array_sort: "umbrella_first (array_sort sortByModId xs)"
  unfolding array_sort_def
  by (rule umbrella_first_rev, rule umbrella_last_foldl) (simp add: umbrella_last_def)

lemma map_mod_id_update_first:
  "map mod_id (update_first P (record_version v) xs) = map mod_id xs"
  by (induction xs) (auto simp: mod_id_record_version)

lemma umbrella_first_ids: "map mod_id xs = map mod_id ys \<Longrightarrow> umbrella_first xs = umbrella_first ys"
proof -
  assume eq: "map mod_id xs = map mod_id ys"
  define F :: "string list \<Rightarrow> bool" where
    "F = (\<lambda>ids. case ids of [] \<Rightarrow> True | i # is \<Rightarrow> UMBRELLA_PACKAGE \<in> set ids \<longrightarrow> i = UMBRELLA_PACKAGE)"
  have char: "umbrella_first zs = F (map mod_id zs)" for zs
    unfolding F_def by (cases zs) (force simp: umbrella_first_def)+
  show ?thesis unfolding char eq ..
qed

lemma umbrella_first_updateModules:
  "umbrella_first ms \<Longrightarrow> umbrella_first (updateModules b ms)"
  by (cases "findWhere ms (\<lambda>m. mod_id m = name b)")
     (simp_all add: updateModules_def umbrella_first_array_sort
        umbrella_first_ids[OF map_mod_id_update_first])

lemma manifest_updateManifest: "manifest (updateManifest e b w) = updateModules b (manifest w)"
  by (simp add: updateManifest_def writeFileSync_def Let_def)

lemma updateModules_has_entry: "\<exists>m\<in>set (updateModules b ms). mod_id m = name b"
proof -
  let ?P = "\<lambda>m. mod_id m = name b"
  have pres: "\<And>x. ?P (record_version (version b) x) = ?P x"
    by (simp add: mod_id_record_version)
  have "findWhere_obj (updateModules b ms) ?P \<noteq> None"
  proof (cases "findWhere ms ?P")
    case None
    have "findWhere_obj (array_sort sortByModId (ms @ [new_config (name b)])) ?P \<noteq> None"
      by (simp add: findWhere_obj_None set_array_sort new_config_def)
    then show ?thesis
      using None by (simp add: updateModules_def findWhere_obj_update_first[of ?P _, OF pres])
  next
    case (Some i)
    then have "findWhere_obj ms ?P \<noteq> None"
      using findWhere_None[of ms ?P] by (auto simp: findWhere_obj_None)
    then show ?thesis
      using Some by (simp add: updateModules_def findWhere_obj_update_first[of ?P _, OF pres])
  qed
  then show ?thesis by (simp add: findWhere_obj_None)
qed

lemma record_version_idem: "record_version v (record_version v c) = record_version v c"
  by (simp add: record_version_def)

lemma update_first_idem:
  "(\<And>x. P (f x) = P x) \<Longrightarrow> (\<And>x. f (f x) = f x) \<Longrightarrow>
   update_first P f (update_first P f xs) = update_first P f xs"
  by (induction xs) auto

lemma updateModules_idem: "updateModules b (updateModules b ms) = updateModules b ms"
proof -
  let ?P = "\<lambda>m. mod_id m = name b"
  have "findWhere (updateModules b ms) ?P \<noteq> None"
    using updateModules_has_entry[of b ms] by (simp add: findWhere_None)
  then obtain i where i: "findWhere (updateModules b ms) ?P = Some i" by auto
  have "updateModules b (updateModules b ms) =
        update_first ?P (record_version (version b)) (updateModules b ms)"
    using i by (simp add: updateModules_def[of b "updateModules b ms"])
  also have "\<dots> = updateModules b ms"
    unfolding updateModules_def[of b ms] Let_def
    by (rule update_first_idem) (simp_all add: mod_id_record_version record_version_idem)
  finally show ?thesis .
qed

lemma store_put_idem: "store_put k v (store_put k v xs) = store_put k v xs"
  by (induction xs) auto

text \<open>
  The sort does not depend on the algorithm when the ids are pairwise different: the
  list \<open>array_sort\<close> returns is sorted by \<^verbatim>\<open>sortByModId\<close>, and it is the only
  rearrangement of the modules that is.
\<close>

lemma sortByModId_neg_iff:
  "sortByModId a b < 0 \<longleftrightarrow>
     mod_id a = UMBRELLA_PACKAGE \<or> (mod_id b \<noteq> UMBRELLA_PACKAGE \<and> mod_id a < mod_id b)"
  by (auto simp: sortByModId_def)

lemma sortByModId_pos_iff:
  "sortByModId a b > 0 \<longleftrightarrow>
     mod_id a \<noteq> UMBRELLA_PACKAGE \<and> (mod_id b = UMBRELLA_PACKAGE \<or> mod_id a > mod_id b)"
  by (auto simp: sortByModId_def)

lemma sortByModId_total:
  "mod_id a \<noteq> mod_id b \<Longrightarrow> (sortByModId a b > 0) = (sortByModId b a < 0)"
  by (auto simp: sortByModId_neg_iff sortByModId_pos_iff)

lemma sortByModId_asym:
  "mod_id a \<noteq> mod_id b \<Longrightarrow> sortByModId a b < 0 \<Longrightarrow> \<not> sortByModId b a < 0"
  by (auto simp: sortByModId_neg_iff)

lemma sortByModId_trans:
  "mod_id a \<noteq> mod_id b \<Longrightarrow> sortByModId a b < 0 \<Longrightarrow> sortByModId b c < 0 \<Longrightarrow> sortByModId a c < 0"
  by (auto simp: sortByModId_neg_iff)

lemma sort_insert_descending:
  assumes "sorted_wrt (\<lambda>a b. sortByModId b a < 0) l"
    and "distinct (map mod_id (x # l))"
  shows "sorted_wrt (\<lambda>a b. sortByModId b a < 0) (sort_insert sortByModId x l)"
  using assms
proof (induction l)
  case Nil
  then show ?case by simp
next
  case (Cons t l)
  have ne: "mod_id t \<noteq> mod_id x" using Cons.prems(2) by auto
  show ?case
  proof (cases "sortByModId t x > 0")
    case True
    then have xt: "sortByModId x t < 0" using sortByModId_total[OF ne] by simp
    have "sorted_wrt (\<lambda>a b. sortByModId b a < 0) (sort_insert sortByModId x l)"
      using Cons.prems by (intro Cons.IH) auto
    moreover have "\<forall>y\<in>set (sort_insert sortByModId x l). sortByModId y t < 0"
      using Cons.prems(1) xt by (auto simp: set_sort_insert)
    ultimately show ?thesis using True by simp
  next
    case False
    then have tx: "sortByModId t x < 0"
      using ne by (auto simp: sortByModId_neg_iff sortByModId_pos_iff)
    have "\<forall>y\<in>set l. sortByModId y x < 0"
    proof
      fix y assume y: "y \<in> set l"
      then have yt: "sortByModId y t < 0" using Cons.prems(1) by auto
      have "mod_id y \<in> mod_id ` set l" using y by simp
      then have "mod_id y \<noteq> mod_id t" using Cons.prems(2) by auto
      then show "sortByModId y x < 0" using yt tx by (rule sortByModId_trans)
    qed
    then show ?thesis using False tx Cons.prems(1) by simp
  qed
qed

lemma foldl_sort_insert_descending:
  assumes "sorted_wrt (\<lambda>a b. sortByModId b a < 0) l"
    and "distinct (map mod_id (l @ xs))"
  shows "sorted_wrt (\<lambda>a b. sortByModId b a < 0)
           (foldl (\<lambda>left element. sort_insert sortByModId element left) l xs)"
  using assms
proof (induction xs arbitrary: l)
  case Nil
  then show ?case by simp
next
  case (Cons x xs)
  have s: "sorted_wrt (\<lambda>a b. sortByModId b a < 0) (sort_insert sortByModId x l)"
    using Cons.prems by (intro sort_insert_descending) auto
  have "mod_id ` set (sort_insert sortByModId x l) = insert (mod_id x) (mod_id ` set l)"
    by (simp add: set_sort_insert)
  moreover have "length (sort_insert sortByModId x l) = Suc (length l)"
    by (induction l) auto
  moreover have "distinct (map mod_id (x # l))" using Cons.prems(2) by auto
  ultimately have d1: "distinct (map mod_id (sort_insert sortByModId x l))"
    by (metis card_distinct distinct_card length_map list.simps(15) list.simps(9) set_map length_Cons)
  have "distinct (map mod_id (sort_insert sortByModId x l @ xs))"
    using d1 Cons.prems(2) by (auto simp: set_sort_insert)
  from Cons.IH[OF s this] show ?case by simp
qed

lemma array_sort_sorted:
  "distinct (map mod_id xs) \<Longrightarrow> sorted_wrt (\<lambda>a b. sortByModId a b < 0) (array_sort sortByModId xs)"
  using foldl_sort_insert_descending[of "[]" xs]
  by (simp add: array_sort_def sorted_wrt_rev)

lemma sorted_modules_equal:
  assumes "sorted_wrt (\<lambda>a b. sortByModId a b < 0) ys"
    and "sorted_wrt (\<lambda>a b. sortByModId a b < 0) zs"
    and "distinct (map mod_id ys)" and "distinct (map mod_id zs)"
    and "set ys = set zs"
  shows "ys = zs"
  using assms
proof (induction ys arbitrary: zs)
  case Nil
  then show ?case by simp
next
  case (Cons y ys)
  then obtain z zs' where zs: "zs = z # zs'" by (cases zs) auto
  have yz: "y = z"
  proof (rule ccontr)
    assume n: "y \<noteq> z"
    then have "y \<in> set zs'" and "z \<in> set ys" using Cons.prems(5) zs by auto
    then have "sortByModId z y < 0" and "sortByModId y z < 0"
      using Cons.prems(1,2) zs by auto
    moreover have "mod_id z \<in> mod_id ` set ys" using \<open>z \<in> set ys\<close> by simp
    then have "mod_id y \<noteq> mod_id z"
      using Cons.prems(3) by auto
    ultimately show False using sortByModId_asym by blast
  qed
  have "y \<notin> set ys" and "z \<notin> set zs'"
    using Cons.prems(3,4) zs by auto
  then have "set ys = set zs'" using Cons.prems(5) zs yz by auto
  then have "ys = zs'"
    using Cons.prems zs by (intro Cons.IH) auto
  then show ?case using yz zs by simp
qed

lemma array_sort_unique:
  assumes "distinct (map mod_id xs)"
    and "set ys = set xs" and "length ys = length xs"
    and "sorted_wrt (\<lambda>a b. sortByModId a b < 0) ys"
  shows "ys = array_sort sortByModId xs"
proof -
  have dx: "distinct xs" using assms(1) by (simp add: distinct_map)
  have inj: "inj_on mod_id (set xs)" using assms(1) by (simp add: distinct_map)
  have "card (set ys) = length ys" using assms(2,3) dx by (simp add: distinct_card)
  then have dy: "distinct ys" by (rule card_distinct)
  have dmy: "distinct (map mod_id ys)"
    using dy inj assms(2) by (simp add: distinct_map)
  let ?zs = "array_sort sortByModId xs"
  have sz: "set ?zs = set xs" by (rule set_array_sort)
  have lz: "length ?zs = length xs"
  proof -
    have "length (foldl (\<lambda>left element. sort_insert sortByModId element left) l xs) =
          length l + length xs" for l
    proof (induction xs arbitrary: l)
      case Nil
      then show ?case by simp
    next
      case (Cons x xs)
      have "length (sort_insert sortByModId x l) = Suc (length l)" by (induction l) auto
      then show ?case using Cons[of "sort_insert sortByModId x l"] by simp
    qed
    then show ?thesis by (simp add: array_sort_def)
  qed
  have "card (set ?zs) = length ?zs" using sz lz dx by (simp add: distinct_card)
  then have "distinct ?zs" by (rule card_distinct)
  then have dmz: "distinct (map mod_id ?zs)"
    using inj sz by (simp add: distinct_map)
  show ?thesis
    using assms(4) array_sort_sorted[OF assms(1)] dmy dmz assms(2) sz
    by (intro sorted_modules_equal) auto
qed

subsection \<open>Facts about \<^verbatim>\<open>add\<close> and the loop of \<^verbatim>\<open>updateDep\<close>\<close>

lemma regit_same: "regit (head w) (prev w) (git_log w) w = w"
  by (simp add: regit_def)

lemma output_state_regit: "output_state (regit h p g w) = output_state w"
  by (simp add: regit_def output_state_def)

lemma git_checkout_regit:
  "git_checkout t w = regit (if t = ''-'' then prev w else t) (head w) (git_log w @ [Checkout t]) w"
  by (simp add: git_checkout_def regit_def)

lemma regit_regit: "regit h p g (regit h' p' g' w) = regit h p g w"
  by (simp add: regit_def)

lemma add_file_regit:
  "add_file e s b f (regit h p g w) = regit h p g (add_file e s b f w)"
  by (simp add: add_file_def js_require_def regit_def builder_write_def writeFileSync_def Let_def
           split: option.splits content.splits)

lemma foldl_add_file_regit:
  "foldl (\<lambda>w1 file. add_file e s b file w1) (regit h p g w) fs =
   regit h p g (foldl (\<lambda>w1 file. add_file e s b file w1) w fs)"
  by (induction fs arbitrary: w) (simp_all add: add_file_regit)

lemma add_files_regit: "add_files e b (regit h p g w) = add_files e b w"
  by (simp add: add_files_def regit_def)

lemma add_regit: "add e s b (regit h p g w) = regit h p g (add e s b w)"
  by (simp add: add_def add_files_regit foldl_add_file_regit)

lemma add_to_bundles_regit:
  "add_to_bundles e b us (regit h p g w) = regit h p g (add_to_bundles e b us w)"
  unfolding add_to_bundles_def
  by (induction us arbitrary: w) (simp_all add: add_regit)

lemma add_git_fields:
  "head (add e s b w) = head w \<and> prev (add e s b w) = prev w \<and> git_log (add e s b w) = git_log w"
proof -
  have "add e s b w = regit (head w) (prev w) (git_log w) (add e s b w)"
    using add_regit[of e s b "head w" "prev w" "git_log w" w] by (simp add: regit_same)
  then have "head (add e s b w) = head (regit (head w) (prev w) (git_log w) (add e s b w))"
    "prev (add e s b w) = prev (regit (head w) (prev w) (git_log w) (add e s b w))"
    "git_log (add e s b w) = git_log (regit (head w) (prev w) (git_log w) (add e s b w))"
    by simp_all
  then show ?thesis by (simp add: regit_def)
qed

lemma umbrella_tag_not_dash: "umbrella_tag u \<noteq> ''-''"
  by (simp add: umbrella_tag_def Bundler_def Builder_def getTagName_def Let_def DEFAULT_VERSION_def
                or_default_def)

lemma updateDep_loop_output:
  "output_state (snd (updateDep_loop e b vs us w)) =
   output_state (add_to_bundles e b (takeWhile (still_max e b vs) us) w)"
proof (induction us arbitrary: w)
  case Nil
  then show ?case by (simp add: add_to_bundles_def)
next
  case (Cons u us)
  let ?self = "Bundler (AVersion u)"
  let ?w1 = "git_checkout (umbrella_tag u) w"
  let ?w2 = "git_checkout ''-'' ?w1"
  have tag: "getTagName (the_builder ?self) = umbrella_tag u" by (simp add: umbrella_tag_def)
  have hd1: "head ?w1 = umbrella_tag u"
    by (simp add: git_checkout_def umbrella_tag_not_dash)
  have o1: "output_state ?w1 = output_state w" by (simp add: git_checkout_regit output_state_regit)
  have o2: "output_state ?w2 = output_state w" by (simp add: git_checkout_regit output_state_regit)
  show ?case
  proof (cases "still_max e b vs u")
    case True
    then obtain deps d where deps: "deps_at e (umbrella_tag u) = Inr deps"
      and d: "findWhere_obj deps (\<lambda>d. dep_name d = name b) = Some d"
      and mx: "semver_maxSatisfying e vs (dep_version d) = Inr (Some (version b))"
      by (auto simp: still_max_def declared_range_def split: sum.splits option.splits)
    have step: "updateDep_loop e b vs (u # us) w = updateDep_loop e b vs us (add e ?self b ?w2)"
      using deps d mx by (simp add: tag getDeps_def hd1 Let_def)
    have w2: "?w2 = regit (head ?w2) (prev ?w2) (git_log ?w2) w"
      by (simp add: git_checkout_def regit_def)
    have "output_state (add_to_bundles e b (takeWhile (still_max e b vs) us) (add e ?self b ?w2)) =
          output_state (add_to_bundles e b (u # takeWhile (still_max e b vs) us) w)"
    proof -
      have "add_to_bundles e b (takeWhile (still_max e b vs) us) (add e ?self b ?w2) =
            add_to_bundles e b (u # takeWhile (still_max e b vs) us) ?w2"
        by (simp add: add_to_bundles_def)
      also have "\<dots> = regit (head ?w2) (prev ?w2) (git_log ?w2)
                        (add_to_bundles e b (u # takeWhile (still_max e b vs) us) w)"
        using add_to_bundles_regit[of e b _ "head ?w2" "prev ?w2" "git_log ?w2" w] w2 by simp
      finally show ?thesis by (simp add: output_state_regit)
    qed
    then show ?thesis
      using True step Cons.IH[of "add e ?self b ?w2"] by simp
  next
    case False
    have "output_state (snd (updateDep_loop e b vs (u # us) w)) = output_state w"
    proof (cases "deps_at e (umbrella_tag u)")
      case (Inl err)
      then show ?thesis by (simp add: tag getDeps_def hd1 Let_def o1)
    next
      case (Inr deps)
      show ?thesis
      proof (cases "findWhere_obj deps (\<lambda>d. dep_name d = name b)")
        case None
        then show ?thesis using Inr by (simp add: tag getDeps_def hd1 Let_def o2)
      next
        case (Some d)
        then have "semver_maxSatisfying e vs (dep_version d) \<noteq> Inr (Some (version b))"
          using False Inr by (simp add: still_max_def declared_range_def)
        then show ?thesis using Inr Some
          by (simp add: tag getDeps_def hd1 Let_def o2 split: sum.splits)
      qed
    qed
    then show ?thesis using False by (simp add: add_to_bundles_def)
  qed
qed

lemma checked_out_append:
  "git_log w' = git_log w @ L \<Longrightarrow> checked_out w w' = concat (map checkout_tag L)"
  by (simp add: checked_out_def checkout_tag_def)

lemma updateDep_loop_log:
  "\<exists>L. git_log (snd (updateDep_loop e b vs us w)) = git_log w @ L \<and>
       concat (map checkout_tag L) =
         map umbrella_tag (take (Suc (length (takeWhile (still_max e b vs) us))) us)"
proof (induction us arbitrary: w)
  case Nil
  then show ?case by simp
next
  case (Cons u us)
  let ?self = "Bundler (AVersion u)"
  let ?w1 = "git_checkout (umbrella_tag u) w"
  let ?w2 = "git_checkout ''-'' ?w1"
  have tag: "getTagName (the_builder ?self) = umbrella_tag u" by (simp add: umbrella_tag_def)
  have hd1: "head ?w1 = umbrella_tag u"
    by (simp add: git_checkout_def umbrella_tag_not_dash)
  have l1: "git_log ?w1 = git_log w @ [Checkout (umbrella_tag u)]" by (simp add: git_checkout_def)
  have l2: "git_log ?w2 = git_log w @ [Checkout (umbrella_tag u), Checkout ''-'']"
    by (simp add: git_checkout_def)
  have c1: "concat (map checkout_tag [Checkout (umbrella_tag u)]) = [umbrella_tag u]"
    by (simp add: checkout_tag_def umbrella_tag_not_dash)
  have c2: "concat (map checkout_tag [Checkout (umbrella_tag u), Checkout ''-'']) = [umbrella_tag u]"
    by (simp add: checkout_tag_def umbrella_tag_not_dash)
  show ?case
  proof (cases "still_max e b vs u")
    case True
    then obtain deps d where deps: "deps_at e (umbrella_tag u) = Inr deps"
      and d: "findWhere_obj deps (\<lambda>d. dep_name d = name b) = Some d"
      and mx: "semver_maxSatisfying e vs (dep_version d) = Inr (Some (version b))"
      by (auto simp: still_max_def declared_range_def split: sum.splits option.splits)
    have step: "updateDep_loop e b vs (u # us) w = updateDep_loop e b vs us (add e ?self b ?w2)"
      using deps d mx by (simp add: tag getDeps_def hd1 Let_def)
    from Cons.IH[of "add e ?self b ?w2"] obtain L where
      L: "git_log (snd (updateDep_loop e b vs us (add e ?self b ?w2))) =
            git_log (add e ?self b ?w2) @ L"
      and cL: "concat (map checkout_tag L) =
            map umbrella_tag (take (Suc (length (takeWhile (still_max e b vs) us))) us)"
      by blast
    have "git_log (snd (updateDep_loop e b vs (u # us) w)) =
          git_log w @ ([Checkout (umbrella_tag u), Checkout ''-''] @ L)"
      using step L l2 add_git_fields[of e ?self b ?w2] by simp
    moreover have "concat (map checkout_tag ([Checkout (umbrella_tag u), Checkout ''-''] @ L)) =
          map umbrella_tag (take (Suc (length (takeWhile (still_max e b vs) (u # us)))) (u # us))"
      using True cL c2 by simp
    ultimately show ?thesis by blast
  next
    case False
    have "git_log (snd (updateDep_loop e b vs (u # us) w)) = git_log w @ [Checkout (umbrella_tag u)] \<or>
          git_log (snd (updateDep_loop e b vs (u # us) w)) =
            git_log w @ [Checkout (umbrella_tag u), Checkout ''-'']"
    proof (cases "deps_at e (umbrella_tag u)")
      case (Inl err)
      then show ?thesis by (simp add: tag getDeps_def hd1 Let_def l1)
    next
      case (Inr deps)
      show ?thesis
      proof (cases "findWhere_obj deps (\<lambda>d. dep_name d = name b)")
        case None
        then show ?thesis using Inr by (simp add: tag getDeps_def hd1 Let_def l2)
      next
        case (Some d)
        then have "semver_maxSatisfying e vs (dep_version d) \<noteq> Inr (Some (version b))"
          using False Inr by (simp add: still_max_def declared_range_def)
        then show ?thesis using Inr Some
          by (simp add: tag getDeps_def hd1 Let_def l2 split: sum.splits)
      qed
    qed
    moreover have "map umbrella_tag (take (Suc (length (takeWhile (still_max e b vs) (u # us)))) (u # us))
          = [umbrella_tag u]"
      using False by simp
    ultimately show ?thesis using c1 c2 by metis
  qed
qed

lemma updateDep_loop_checked_out:
  "checked_out w (snd (updateDep_loop e b vs us w)) =
   map umbrella_tag (take (Suc (length (takeWhile (still_max e b vs) us))) us)"
  using updateDep_loop_log[of e b vs us w] checked_out_append by metis

lemma updateDep_unfold:
  "\<not> isMaster b \<Longrightarrow>
   findWhere_obj (manifest w) (\<lambda>m. mod_id m = UMBRELLA_PACKAGE) = Some bundleConfig \<Longrightarrow>
   findWhere_obj (manifest w) (\<lambda>m. mod_id m = name b) = Some config \<Longrightarrow>
   updateDep e b w =
     updateDep_loop e b (valid_versions e (versions config)) (butlast (versions bundleConfig)) w"
  by (simp add: updateDep_def Let_def butlast_conv_take)

lemma takeWhile_stop:
  "i < length us \<Longrightarrow> \<not> P (us ! i) \<Longrightarrow> takeWhile P us = takeWhile P (take i us)"
proof -
  assume i: "i < length us" and n: "\<not> P (us ! i)"
  have "us = take i us @ us ! i # drop (Suc i) us"
    using i by (simp add: id_take_nth_drop)
  then have "takeWhile P us = takeWhile P (take i us @ us ! i # drop (Suc i) us)" by simp
  also have "\<dots> = takeWhile P (take i us)"
    using n by (simp add: takeWhile_append takeWhile_eq_all_conv[THEN iffD2])
  finally show ?thesis .
qed

subsection \<open>Facts about \<^verbatim>\<open>build\<close>\<close>

lemma head_writeFileSync: "head (writeFileSync e p c w) = head w"
  by (simp add: writeFileSync_def)

lemma head_builder_write: "head (builder_write e b f c w) = head w"
  by (simp add: builder_write_def head_writeFileSync)

lemma head_copy_markdown_aux:
  "head (foldl (\<lambda>w1 (p, text).
        if glob_match (MARKDOWN e) (path_resolve (pcwd e) [p])
        then w1\<lparr> markdown :=
                  store_put (path_resolve (pcwd e) [dir b, path_basename p]) text (markdown w1) \<rparr>
        else w1) w xs) = head w"
  by (induction xs arbitrary: w) (auto split: prod.splits)

lemma head_copy_markdown: "head (copy_markdown e b w) = head w"
  by (simp add: copy_markdown_def head_copy_markdown_aux)

lemma parseFile_head: "head w = head w' \<Longrightarrow> parseFile e f w = parseFile e f w'"
  by (simp add: parseFile_def)

lemma build_docs_failure:
  "\<forall>g\<in>set pre. parses e w g \<Longrightarrow> parseFile e file w = Inl err \<Longrightarrow>
   build_docs e b (pre @ file # post) w = (Inl err, snd (build_docs e b pre w)) \<and>
   (\<exists>docs. fst (build_docs e b pre w) = Inr docs)"
proof (induction pre arbitrary: w)
  case Nil
  then show ?case by simp
next
  case (Cons g pre)
  from Cons.prems obtain json where g: "parseFile e g w = Inr json"
    by (auto simp: parses_def split: sum.splits)
  let ?w1 = "builder_write e b (strip_src g @ ''on'')
               (Doc (json\<lparr>doc_path := path_basename (strip_src g @ ''on'')\<rparr>)) w"
  have h: "head ?w1 = head w" by (simp add: head_builder_write)
  have "\<forall>x\<in>set pre. parses e ?w1 x"
    using Cons.prems(1) parseFile_head[OF h] by (simp add: parses_def)
  moreover have "parseFile e file ?w1 = Inl err"
    using Cons.prems(2) parseFile_head[OF h] by simp
  ultimately have ih: "build_docs e b (pre @ file # post) ?w1 = (Inl err, snd (build_docs e b pre ?w1)) \<and>
      (\<exists>docs. fst (build_docs e b pre ?w1) = Inr docs)"
    by (rule Cons.IH)
  then obtain docs where d: "fst (build_docs e b pre ?w1) = Inr docs" by blast
  then obtain w2 where w2: "build_docs e b pre ?w1 = (Inr docs, w2)"
    by (cases "build_docs e b pre ?w1") auto
  show ?case using g ih w2 by (simp add: Let_def)
qed

subsection \<open>Facts about paths\<close>

lemma split_char_not_Nil: "split_char sep s \<noteq> []"
  by (induction s) (auto split: list.splits)

lemma split_char_append:
  "split_char sep (xs @ sep # ys) = split_char sep xs @ split_char sep ys"
proof (induction xs)
  case Nil
  then show ?case by simp
next
  case (Cons c xs)
  then show ?case
    using split_char_not_Nil[of sep xs]
    by (cases "split_char sep xs") (auto split: list.splits)
qed

lemma split_char_plain: "sep \<notin> set f \<Longrightarrow> split_char sep f = [f]"
  by (induction f) auto

lemma split_char_no_sep: "s \<in> set (split_char sep p) \<Longrightarrow> sep \<notin> set s"
proof (induction p arbitrary: s)
  case Nil
  then show ?case by simp
next
  case (Cons c p)
  then show ?case
    using split_char_not_Nil[of sep p]
    by (cases "split_char sep p") (auto split: if_splits)
qed

lemma join_split: "join_slash (split_slash p) = p"
proof (induction p)
  case Nil
  then show ?case by (simp add: split_slash_def)
next
  case (Cons c p)
  show ?case
  proof (cases "c = CHR ''/''")
    case True
    obtain s ss where "split_char CHR ''/'' p = s # ss"
      using split_char_not_Nil[of "CHR ''/''" p] by (cases "split_char CHR ''/'' p") auto
    then show ?thesis using True Cons by (simp add: split_slash_def)
  next
    case False
    obtain s ss where ss: "split_char CHR ''/'' p = s # ss"
      using split_char_not_Nil[of "CHR ''/''" p] by (cases "split_char CHR ''/'' p") auto
    then show ?thesis using False Cons by (cases ss) (simp_all add: split_slash_def)
  qed
qed

lemma join_slash_snoc:
  "join_slash (ss @ [f]) = (if ss = [] then f else join_slash ss @ ''/'' @ f)"
  by (induction ss rule: join_slash.induct) auto

lemma split_join:
  "segs \<noteq> [] \<Longrightarrow> \<forall>s\<in>set segs. CHR ''/'' \<notin> set s \<Longrightarrow> split_slash (join_slash segs) = segs"
proof (induction segs rule: join_slash.induct)
  case 1
  then show ?case by simp
next
  case (2 s)
  then show ?case by (simp add: split_slash_def split_char_plain)
next
  case (3 s t ss)
  then have "split_slash (join_slash (t # ss)) = t # ss" by simp
  moreover have "split_char CHR ''/'' s = [s]" using 3 by (simp add: split_char_plain)
  ultimately show ?case
    using split_char_append[of "CHR ''/''" s "join_slash (t # ss)"]
    by (simp add: split_slash_def)
qed

lemma split_slash_append:
  "split_slash (xs @ CHR ''/'' # ys) = split_slash xs @ split_slash ys"
  using split_char_append[of "CHR ''/''" xs ys] by (simp add: split_slash_def)

lemma split_slash_plain: "plain f \<Longrightarrow> split_slash f = [f]"
  by (simp add: split_slash_def plain_def split_char_plain)

lemma seg_step_plain: "plain f \<Longrightarrow> seg_step c res f = f # res"
  by (simp add: seg_step_def plain_def)

lemma normalize_segments_snoc:
  "plain f \<Longrightarrow> normalize_segments c (xs @ [f]) = normalize_segments c xs @ [f]"
  by (simp add: normalize_segments_def seg_step_plain)

lemma seg_step_subset: "set (seg_step c res s) \<subseteq> insert s (set res)"
  by (auto simp: seg_step_def split: list.splits if_splits)

lemma foldl_seg_step_subset: "set (foldl (seg_step c) res xs) \<subseteq> set res \<union> set xs"
proof (induction xs arbitrary: res)
  case Nil
  then show ?case by simp
next
  case (Cons x xs)
  then show ?case using seg_step_subset[of c res x] by fastforce
qed

lemma normalize_segments_subset: "set (normalize_segments c xs) \<subseteq> set xs"
  using foldl_seg_step_subset[of c "[]" xs] by (simp add: normalize_segments_def)

lemma normalize_segments_no_slash:
  "s \<in> set (normalize_segments c (split_slash p)) \<Longrightarrow> CHR ''/'' \<notin> set s"
  using normalize_segments_subset[of c "split_slash p"] split_char_no_sep[of s "CHR ''/''" p]
  by (auto simp: split_slash_def)

lemma plain_not_abs: "plain f \<Longrightarrow> f \<noteq> [] \<and> hd f \<noteq> CHR ''/''"
  by (cases f) (auto simp: plain_def)

lemma resolve_args_snoc:
  "plain f \<Longrightarrow>
   resolve_args (xs @ [f]) = (if resolve_args xs = [] then f else resolve_args xs @ ''/'' @ f)"
proof (induction xs)
  case Nil
  then show ?case by (simp add: Let_def)
next
  case (Cons a xs)
  then show ?case using plain_not_abs[of f]
    by (auto simp: Let_def)
qed

lemma path_resolve_snoc:
  assumes "plain f"
  shows "path_resolve cwd0 (args @ [f]) = ''/'' @ join_slash (resolved_dir cwd0 args @ [f])"
proof -
  have r: "resolve_args (cwd0 # args @ [f]) =
        (if resolve_args (cwd0 # args) = [] then f else resolve_args (cwd0 # args) @ ''/'' @ f)"
    using resolve_args_snoc[OF assms, of "cwd0 # args"] by simp
  show ?thesis
  proof (cases "resolve_args (cwd0 # args) = []")
    case True
    then show ?thesis
      using r assms
      by (simp add: path_resolve_def resolved_dir_def Let_def split_slash_plain
            normalize_segments_def seg_step_plain del: resolve_args.simps)
  next
    case False
    then show ?thesis
      using r assms
      by (simp add: path_resolve_def resolved_dir_def Let_def split_slash_append
            split_slash_plain normalize_segments_snoc del: resolve_args.simps)
  qed
qed

lemma resolved_dir_no_slash: "s \<in> set (resolved_dir cwd0 args) \<Longrightarrow> CHR ''/'' \<notin> set s"
  using normalize_segments_no_slash by (auto simp: resolved_dir_def split: if_splits)

lemma split_path_resolve_snoc:
  assumes "plain f"
  shows "split_slash (path_resolve cwd0 (args @ [f])) = [] # resolved_dir cwd0 args @ [f]"
proof -
  have ns: "\<forall>s\<in>set (resolved_dir cwd0 args @ [f]). CHR ''/'' \<notin> set s"
    using resolved_dir_no_slash assms by (auto simp: plain_def)
  have "split_slash (''/'' @ join_slash (resolved_dir cwd0 args @ [f])) =
        split_slash [] @ split_slash (join_slash (resolved_dir cwd0 args @ [f]))"
    using split_slash_append[of "[]" "join_slash (resolved_dir cwd0 args @ [f])"] by simp
  then show ?thesis
    using split_join[OF _ ns] by (simp add: path_resolve_snoc[OF assms] split_slash_def)
qed

lemma split_slash_not_Nil: "split_slash p \<noteq> []"
  by (simp add: split_slash_def split_char_not_Nil)

lemma split_slash_last_seg: "split_slash p = butlast (split_slash p) @ [last_seg p]"
  by (simp add: last_seg_def split_slash_not_Nil)

lemma last_seg_append: "last_seg (xs @ CHR ''/'' # ys) = last_seg ys"
  by (simp add: last_seg_def split_slash_append split_slash_not_Nil)

lemma last_seg_plain: "plain f \<Longrightarrow> last_seg f = f"
  by (simp add: last_seg_def split_slash_plain)

lemma last_seg_path_resolve_snoc: "plain f \<Longrightarrow> last_seg (path_resolve cwd0 (args @ [f])) = f"
  by (simp add: last_seg_def split_path_resolve_snoc)

lemma split_slash_inj: "split_slash p = split_slash q \<Longrightarrow> p = q"
  by (metis join_split)

lemma last_char_of_last_seg:
  assumes "last_seg p \<noteq> []"
  shows "p \<noteq> [] \<and> last p = last (last_seg p)"
proof -
  have p: "p = join_slash (butlast (split_slash p) @ [last_seg p])"
    using join_split[of p] split_slash_last_seg[of p] by simp
  show ?thesis
  proof (cases "butlast (split_slash p) = []")
    case True
    then have "p = last_seg p" using p by (simp add: join_slash_snoc)
    then show ?thesis using assms by auto
  next
    case False
    then have "p = join_slash (butlast (split_slash p)) @ ''/'' @ last_seg p"
      using p by (simp add: join_slash_snoc)
    then have "p \<noteq> [] \<and> last p = last (join_slash (butlast (split_slash p)) @ ''/'' @ last_seg p)"
      by auto
    then show ?thesis using assms by simp
  qed
qed

lemma split_slash_Cons_slash: "split_slash (CHR ''/'' # q) = [] # split_slash q"
  by (simp add: split_slash_def)

lemma split_slash_snocE:
  obtains S where "split_slash p = S @ [last_seg p]"
  using split_slash_last_seg[of p] by blast

lemma last_seg_path_normalize:
  assumes "plain f" and "last_seg p = f"
  shows "last_seg (path_normalize p) = f"
proof -
  have fne: "f \<noteq> []" using assms(1) by (simp add: plain_def)
  have fl: "last f \<noteq> CHR ''/''"
    using assms(1) last_in_set[OF fne] unfolding plain_def by metis
  have pne: "p \<noteq> []" and lp: "last p \<noteq> CHR ''/''"
    using last_char_of_last_seg[of p] assms(2) fne fl by auto
  obtain S where sp: "split_slash p = S @ [f]"
    using split_slash_snocE[of p] assms(2) by auto
  have q: "normalize_segments c (split_slash p) = normalize_segments c S @ [f]" for c
    unfolding sp by (rule normalize_segments_snoc[OF assms(1)])
  have ns: "\<forall>s\<in>set (normalize_segments c S @ [f]). CHR ''/'' \<notin> set s" for c
    using normalize_segments_no_slash[of _ c p] unfolding q by blast
  have sj: "split_slash (join_slash (normalize_segments c S @ [f])) = normalize_segments c S @ [f]" for c
    using split_join[OF _ ns[of c]] by simp
  have jne: "join_slash (normalize_segments c S @ [f]) \<noteq> []" for c
    using fne by (simp add: join_slash_snoc)
  show ?thesis
    using pne lp jne
    by (simp add: path_normalize_def Let_def last_seg_def split_slash_Cons_slash q sj)
qed

lemma last_seg_join_slash_snoc: "last_seg (join_slash (A @ [p])) = last_seg p"
  by (simp add: join_slash_snoc last_seg_append)

lemma last_seg_path_join:
  assumes "plain f" and "last_seg p = f"
  shows "last_seg (path_join (args @ [p])) = f"
proof -
  have pne: "p \<noteq> []" using last_char_of_last_seg[of p] assms by (auto simp: plain_def)
  let ?A = "filter (\<lambda>a. a \<noteq> []) args"
  have j: "join_slash (filter (\<lambda>a. a \<noteq> []) (args @ [p])) = join_slash (?A @ [p])"
    using pne by simp
  have l: "last_seg (join_slash (?A @ [p])) = f"
    using assms(2) by (simp add: last_seg_join_slash_snoc)
  have ne: "join_slash (?A @ [p]) \<noteq> []"
    using pne by (simp add: join_slash_snoc)
  show ?thesis
    unfolding path_join_def Let_def j using ne last_seg_path_normalize[OF assms(1) l] by simp
qed

lemma last_seg_resolve_args:
  assumes "plain f" and "last_seg p = f"
  shows "last_seg (resolve_args (xs @ [p])) = f"
proof (induction xs)
  case Nil
  have "p \<noteq> []" using last_char_of_last_seg[of p] assms by (auto simp: plain_def)
  then show ?case using assms(2) by (simp add: Let_def)
next
  case (Cons a xs)
  have "resolve_args (xs @ [p]) \<noteq> []"
    using last_char_of_last_seg[of "resolve_args (xs @ [p])"] Cons assms(1) by (auto simp: plain_def)
  then show ?case using Cons by (auto simp: Let_def last_seg_append)
qed

lemma last_seg_path_resolve:
  assumes "plain f" and "last_seg p = f"
  shows "last_seg (path_resolve cwd0 (args @ [p])) = f"
proof -
  define r where "r = resolve_args (cwd0 # args @ [p])"
  have l: "last_seg r = f"
    using last_seg_resolve_args[OF assms, of "cwd0 # args"] by (simp add: r_def)
  obtain S where sp: "split_slash r = S @ [f]"
    using split_slash_snocE[of r] l by auto
  have q: "normalize_segments False (split_slash r) = normalize_segments False S @ [f]"
    unfolding sp by (rule normalize_segments_snoc[OF assms(1)])
  have ns: "\<forall>s\<in>set (normalize_segments False S @ [f]). CHR ''/'' \<notin> set s"
    using normalize_segments_no_slash[of _ False r] unfolding q by blast
  have sj: "split_slash (join_slash (normalize_segments False S @ [f])) =
            normalize_segments False S @ [f]"
    using split_join[OF _ ns] by simp
  have "path_resolve cwd0 (args @ [p]) = ''/'' @ join_slash (normalize_segments False (split_slash r))"
    by (simp add: path_resolve_def Let_def r_def del: resolve_args.simps)
  then show ?thesis
    by (simp add: q sj last_seg_def split_slash_Cons_slash)
qed

lemma path_basename_last_seg: "last_seg p \<noteq> [] \<Longrightarrow> path_basename p = last_seg p"
proof -
  assume a: "last_seg p \<noteq> []"
  obtain S where sp: "split_slash p = S @ [last_seg p]"
    by (rule split_slash_snocE)
  define L where "L = filter (\<lambda>s. s \<noteq> []) (split_slash p)"
  have "L = filter (\<lambda>s. s \<noteq> []) S @ [last_seg p]"
    unfolding L_def sp using a by simp
  then have "L \<noteq> [] \<and> last L = last_seg p" by simp
  then have "(case L of [] \<Rightarrow> [] | ss \<Rightarrow> last ss) = last_seg p"
    by (cases L) auto
  then show ?thesis by (simp add: path_basename_def L_def)
qed

lemma seg_step_ok: "seg_ok s \<Longrightarrow> seg_step c res s = s # res"
  by (simp add: seg_step_def seg_ok_def)

lemma foldl_seg_step_ok: "\<forall>s\<in>set xs. seg_ok s \<Longrightarrow> foldl (seg_step c) A xs = rev xs @ A"
  by (induction xs arbitrary: A) (simp_all add: seg_step_ok)

lemma seg_step_False_ok:
  assumes "\<forall>s\<in>set res. seg_ok s"
  shows "\<forall>s\<in>set (seg_step False res x). seg_ok s"
proof (cases "seg_ok x")
  case True
  then show ?thesis using assms by (simp add: seg_step_ok)
next
  case False
  have "set (seg_step False res x) \<subseteq> set res"
    using False by (cases res) (auto simp: seg_step_def seg_ok_def)
  then show ?thesis using assms by blast
qed

lemma foldl_seg_step_False_ok:
  "\<forall>s\<in>set res. seg_ok s \<Longrightarrow> \<forall>s\<in>set (foldl (seg_step False) res xs). seg_ok s"
proof (induction xs arbitrary: res)
  case Nil
  then show ?case by simp
next
  case (Cons x xs)
  show ?case using Cons.IH[OF seg_step_False_ok[OF Cons.prems]] by simp
qed

lemma normalize_segments_False_idem:
  "normalize_segments False (normalize_segments False ds) = normalize_segments False ds"
proof -
  have "\<forall>s\<in>set (foldl (seg_step False) [] ds). seg_ok s"
    by (rule foldl_seg_step_False_ok) simp
  then have "\<forall>s\<in>set (rev (foldl (seg_step False) [] ds)). seg_ok s" by simp
  from foldl_seg_step_ok[OF this, of False "[]"]
  show ?thesis by (simp add: normalize_segments_def)
qed

lemma seg_step_True_kept:
  assumes "\<forall>s\<in>set res. s \<noteq> [] \<and> s \<noteq> ''.''"
  shows "\<forall>s\<in>set (seg_step True res x). s \<noteq> [] \<and> s \<noteq> ''.''"
proof -
  have "set (seg_step True res x) \<subseteq> set res \<or>
        (x \<noteq> [] \<and> x \<noteq> ''.'' \<and> set (seg_step True res x) \<subseteq> insert x (set res))"
    by (cases res) (auto simp: seg_step_def)
  then show ?thesis using assms by blast
qed

lemma foldl_seg_step_True_kept:
  "\<forall>s\<in>set res. s \<noteq> [] \<and> s \<noteq> ''.'' \<Longrightarrow>
   \<forall>s\<in>set (foldl (seg_step True) res xs). s \<noteq> [] \<and> s \<noteq> ''.''"
proof (induction xs arbitrary: res)
  case Nil
  then show ?case by simp
next
  case (Cons x xs)
  show ?case using Cons.IH[OF seg_step_True_kept[OF Cons.prems]] by simp
qed

lemma normalize_compose:
  "foldl (seg_step False) A (rev (foldl (seg_step True) [] ds)) = foldl (seg_step False) A ds"
proof (induction ds rule: rev_induct)
  case Nil
  then show ?case by simp
next
  case (snoc x xs)
  define B where "B = foldl (seg_step True) [] xs"
  have IH: "foldl (seg_step False) A (rev B) = foldl (seg_step False) A xs"
    using snoc by (simp add: B_def)
  have kept: "\<forall>s\<in>set B. s \<noteq> [] \<and> s \<noteq> ''.''"
    unfolding B_def by (rule foldl_seg_step_True_kept) simp
  have goal: "foldl (seg_step False) A (rev (seg_step True B x)) =
              seg_step False (foldl (seg_step False) A (rev B)) x"
  proof (cases "x = [] \<or> x = ''.''")
    case True
    then show ?thesis by (auto simp: seg_step_def)
  next
    case False
    note nx = this
    show ?thesis
    proof (cases "x = ''..''")
      case False
      then have "seg_ok x" using nx by (simp add: seg_ok_def)
      then show ?thesis by (simp add: seg_step_ok)
    next
      case True
      show ?thesis
      proof (cases B)
        case Nil
        then show ?thesis using True by (simp add: seg_step_def)
      next
        case (Cons a as)
        show ?thesis
        proof (cases "a = ''..''")
          case True
          then show ?thesis using Cons \<open>x = ''..''\<close> by (simp add: seg_step_def)
        next
          case False
          then have "seg_ok a" using kept Cons by (simp add: seg_ok_def)
          then have "seg_step False (foldl (seg_step False) A (rev B)) x =
                     foldl (seg_step False) A (rev as)"
            using Cons \<open>x = ''..''\<close> False by (simp add: seg_step_ok) (simp add: seg_step_def)
          moreover have "seg_step True B x = as"
            using Cons \<open>x = ''..''\<close> False by (simp add: seg_step_def)
          ultimately show ?thesis by simp
        qed
      qed
    qed
  qed
  show ?case using goal IH by (simp add: B_def)
qed

lemma normalize_segments_prefix:
  "normalize_segments False (ps @ normalize_segments True ds) = normalize_segments False (ps @ ds)"
  by (simp add: normalize_segments_def normalize_compose)

lemma normalize_segments_Nil_Cons: "normalize_segments c ([] # xs) = normalize_segments c xs"
  by (simp add: normalize_segments_def seg_step_def)

lemma path_join_two:
  assumes "plain f" and "d \<noteq> []"
  shows "path_join [d, f] =
           (if hd d = CHR ''/'' then ''/'' else []) @
           join_slash (normalize_segments (hd d \<noteq> CHR ''/'') (split_slash d) @ [f])"
proof -
  have fne: "f \<noteq> []" using assms(1) by (simp add: plain_def)
  have fl: "last f \<noteq> CHR ''/''"
    using assms(1) last_in_set[OF fne] unfolding plain_def by metis
  have j: "join_slash (filter (\<lambda>a. a \<noteq> []) [d, f]) = d @ CHR ''/'' # f"
    using assms(2) fne by simp
  have sp: "split_slash (d @ CHR ''/'' # f) = split_slash d @ [f]"
    using assms(1) by (simp add: split_slash_append split_slash_plain)
  have jne: "join_slash (normalize_segments c (split_slash d) @ [f]) \<noteq> []" for c
    using fne by (simp add: join_slash_snoc)
  show ?thesis
    unfolding path_join_def Let_def j
    using assms(2) fne fl jne
    by (simp add: path_normalize_def Let_def sp normalize_segments_snoc[OF assms(1)])
qed

lemma path_resolve_path_join:
  assumes "plain f"
  shows "path_resolve cwd0 [path_join [d, f]] = path_resolve cwd0 [d, f]"
proof (cases "d = []")
  case True
  have fne: "f \<noteq> []" using assms by (simp add: plain_def)
  have fl: "last f \<noteq> CHR ''/''"
    using assms last_in_set[OF fne] unfolding plain_def by metis
  have fh: "hd f \<noteq> CHR ''/''" using plain_not_abs[OF assms] by simp
  have "path_join [d, f] = f"
    using True assms fne fl fh
    by (simp add: path_join_def path_normalize_def Let_def split_slash_plain normalize_segments_def
          seg_step_plain)
  moreover have "resolve_args [cwd0, [], f] = resolve_args [cwd0, f]"
    by (simp add: Let_def)
  ultimately show ?thesis using True by (simp add: path_resolve_def del: resolve_args.simps)
next
  case False
  have fne: "f \<noteq> []" using assms by (simp add: plain_def)
  have fh: "hd f \<noteq> CHR ''/''" using plain_not_abs[OF assms] by simp
  have nsl: "\<forall>s\<in>set (normalize_segments c (split_slash d) @ [f]). CHR ''/'' \<notin> set s" for c
    using normalize_segments_no_slash[of _ c d] assms by (auto simp: plain_def)
  have sj: "split_slash (join_slash (normalize_segments c (split_slash d) @ [f])) =
            normalize_segments c (split_slash d) @ [f]" for c
    using split_join[OF _ nsl[of c]] by simp
  have jne: "join_slash (normalize_segments c (split_slash d) @ [f]) \<noteq> []" for c
    using fne by (simp add: join_slash_snoc)
  show ?thesis
  proof (cases "hd d = CHR ''/''")
    case True
    let ?t = "''/'' @ join_slash (normalize_segments False (split_slash d) @ [f])"
    have t: "path_join [d, f] = ?t"
      using path_join_two[OF assms False] True by simp
    have l: "resolve_args [cwd0, ?t] = ?t" by (simp add: Let_def)
    have r: "resolve_args [cwd0, d, f] = d @ CHR ''/'' # f"
      using True False fne fh by (auto simp: Let_def)
    have "normalize_segments False (split_slash ?t) =
          normalize_segments False (split_slash d) @ [f]"
      by (simp add: split_slash_Cons_slash sj normalize_segments_Nil_Cons
            normalize_segments_snoc[OF assms] normalize_segments_False_idem)
    moreover have "normalize_segments False (split_slash (d @ CHR ''/'' # f)) =
          normalize_segments False (split_slash d) @ [f]"
      using assms by (simp add: split_slash_append split_slash_plain normalize_segments_snoc)
    ultimately show ?thesis
      unfolding path_resolve_def Let_def t l r by simp
  next
    case nabs: False
    let ?t = "join_slash (normalize_segments True (split_slash d) @ [f])"
    have t: "path_join [d, f] = ?t"
      using path_join_two[OF assms False] nabs by simp
    have tn: "?t \<noteq> []" by (rule jne)
    have th: "hd ?t \<noteq> CHR ''/''"
    proof
      assume "hd ?t = CHR ''/''"
      then obtain q where "?t = CHR ''/'' # q" using tn by (cases ?t) auto
      then have "split_slash ?t = [] # split_slash q" by (simp add: split_slash_Cons_slash)
      then have "[] \<in> set (normalize_segments True (split_slash d) @ [f])"
        using sj[of True] by simp
      moreover have "\<forall>s\<in>set (foldl (seg_step True) [] (split_slash d)). s \<noteq> [] \<and> s \<noteq> ''.''"
        by (rule foldl_seg_step_True_kept) simp
      ultimately show False using fne by (auto simp: normalize_segments_def)
    qed
    show ?thesis
    proof (cases "cwd0 = []")
      case True
      have l: "resolve_args [cwd0, ?t] = ?t" using True tn by (simp add: Let_def)
      have r: "resolve_args [cwd0, d, f] = d @ CHR ''/'' # f"
        using True False fne fh nabs by (auto simp: Let_def)
      have "normalize_segments False (split_slash ?t) =
            normalize_segments False (split_slash d) @ [f]"
        using normalize_segments_prefix[of "[]" "split_slash d"]
        by (simp add: sj normalize_segments_snoc[OF assms])
      moreover have "normalize_segments False (split_slash (d @ CHR ''/'' # f)) =
            normalize_segments False (split_slash d) @ [f]"
        using assms by (simp add: split_slash_append split_slash_plain normalize_segments_snoc)
      ultimately show ?thesis
        unfolding path_resolve_def Let_def t l r by simp
    next
      case cne: False
      have l: "resolve_args [cwd0, ?t] = cwd0 @ CHR ''/'' # ?t"
        using cne tn th by (simp add: Let_def)
      have r: "resolve_args [cwd0, d, f] = cwd0 @ CHR ''/'' # d @ CHR ''/'' # f"
        using cne False fne fh nabs by (auto simp: Let_def)
      have "normalize_segments False (split_slash (cwd0 @ CHR ''/'' # ?t)) =
            normalize_segments False (split_slash cwd0 @ split_slash d) @ [f]"
        using normalize_segments_prefix[of "split_slash cwd0" "split_slash d"]
              normalize_segments_snoc[OF assms, of False "split_slash cwd0 @ normalize_segments True (split_slash d)"]
        by (simp add: split_slash_append sj)
      moreover have "normalize_segments False (split_slash (cwd0 @ CHR ''/'' # d @ CHR ''/'' # f)) =
            normalize_segments False (split_slash cwd0 @ split_slash d) @ [f]"
        using assms normalize_segments_snoc[OF assms, of False "split_slash cwd0 @ split_slash d"]
              split_slash_append[of cwd0 "d @ CHR ''/'' # f"]
        by (simp add: split_slash_append split_slash_plain)
      ultimately show ?thesis
        unfolding path_resolve_def Let_def t l r by simp
    qed
  qed
qed

subsection \<open>Facts about the files of a bundle\<close>

lemma map_of_store_put:
  "map_of (store_put k v xs) k' = (if k' = k then Some v else map_of xs k')"
  by (induction xs) auto

lemma plain_TYPES_DICT: "plain TYPES_DICT"
  by (simp add: plain_def TYPES_DICT_def)

lemma plain_TOC: "plain TOC"
  by (simp add: plain_def TOC_def)

lemma plain_star_json: "plain ''*.json''"
  by (simp add: plain_def)

lemma last_seg_types_path: "last_seg (types_path e b) = TYPES_DICT"
  using last_seg_path_resolve_snoc[OF plain_TYPES_DICT, of "pcwd e" "[dir b]"]
  by (simp add: types_path_def)

lemma write_path_plain:
  "plain f \<Longrightarrow> path_resolve (pcwd e) [path_join [dir b, f]] = path_resolve (pcwd e) [dir b, f]"
  by (rule path_resolve_path_join)

lemma builder_write_files:
  "plain f \<Longrightarrow>
   files (builder_write e b f c w) = store_put (path_resolve (pcwd e) [dir b, f]) c (files w)"
  by (simp add: builder_write_def writeFileSync_def write_path_plain)

lemma builder_write_other:
  "cache (builder_write e b f c w) = cache w \<and> head (builder_write e b f c w) = head w \<and>
   manifest (builder_write e b f c w) = manifest w"
  by (simp add: builder_write_def writeFileSync_def)

lemma copy_markdown_aux:
  "cache (foldl (\<lambda>w1 (p, text).
        if glob_match (MARKDOWN e) (path_resolve (pcwd e) [p])
        then w1\<lparr> markdown :=
                  store_put (path_resolve (pcwd e) [dir b, path_basename p]) text (markdown w1) \<rparr>
        else w1) w xs) = cache w \<and>
   files (foldl (\<lambda>w1 (p, text).
        if glob_match (MARKDOWN e) (path_resolve (pcwd e) [p])
        then w1\<lparr> markdown :=
                  store_put (path_resolve (pcwd e) [dir b, path_basename p]) text (markdown w1) \<rparr>
        else w1) w xs) = files w"
  by (induction xs arbitrary: w) (auto split: prod.splits)

lemma copy_markdown_other:
  "cache (copy_markdown e b w) = cache w \<and> files (copy_markdown e b w) = files w"
  by (simp add: copy_markdown_def copy_markdown_aux)

lemma build_docs_other:
  "cache (snd (build_docs e b fs w)) = cache w \<and> head (snd (build_docs e b fs w)) = head w"
proof (induction fs arbitrary: w)
  case Nil
  then show ?case by simp
next
  case (Cons f fs)
  show ?case
  proof (cases "parseFile e f w")
    case (Inl err)
    then show ?thesis by simp
  next
    case (Inr json)
    let ?w1 = "builder_write e b (strip_src f @ ''on'')
                 (Doc (json\<lparr>doc_path := path_basename (strip_src f @ ''on'')\<rparr>)) w"
    have "cache (snd (build_docs e b fs ?w1)) = cache ?w1 \<and>
          head (snd (build_docs e b fs ?w1)) = head ?w1" by (rule Cons.IH)
    then show ?thesis
      using Inr builder_write_other[of e b _ _ w]
      by (cases "build_docs e b fs ?w1") (auto simp: Let_def split: sum.splits)
  qed
qed

lemma build_docs_fst_head:
  "head w = head w' \<Longrightarrow> fst (build_docs e b fs w) = fst (build_docs e b fs w')"
proof (induction fs arbitrary: w w')
  case Nil
  then show ?case by simp
next
  case (Cons f fs)
  have pf: "parseFile e f w = parseFile e f w'" using Cons.prems by (rule parseFile_head)
  show ?case
  proof (cases "parseFile e f w")
    case (Inl err)
    then show ?thesis using pf by simp
  next
    case (Inr json)
    let ?c = "Doc (json\<lparr>doc_path := path_basename (strip_src f @ ''on'')\<rparr>)"
    let ?w1 = "builder_write e b (strip_src f @ ''on'') ?c w"
    let ?w1' = "builder_write e b (strip_src f @ ''on'') ?c w'"
    have "head ?w1 = head ?w1'" using Cons.prems by (simp add: builder_write_other)
    then have "fst (build_docs e b fs ?w1) = fst (build_docs e b fs ?w1')" by (rule Cons.IH)
    then show ?thesis
      using Inr pf
      by (cases "build_docs e b fs ?w1"; cases "build_docs e b fs ?w1'")
         (auto simp: Let_def split: sum.splits)
  qed
qed

lemma source_files_head: "head w = head w' \<Longrightarrow> source_files e b w = source_files e b w'"
  by (simp add: source_files_def)

lemma built_types_head: "head w = head w' \<Longrightarrow> built_types e b w = built_types e b w'"
  using build_docs_fst_head[of w w' e b] source_files_head[of w w' e b]
  by (simp add: built_types_def)

lemma types_toc_differ: "path_resolve (pcwd e) [dir b, TOC] \<noteq> types_path e b"
proof
  assume "path_resolve (pcwd e) [dir b, TOC] = types_path e b"
  then have "last_seg (path_resolve (pcwd e) [dir b, TOC]) = TYPES_DICT"
    by (simp add: last_seg_types_path)
  moreover have "last_seg (path_resolve (pcwd e) [dir b, TOC]) = TOC"
    using last_seg_path_resolve_snoc[OF plain_TOC, of "pcwd e" "[dir b]"] by simp
  ultimately show False by (simp add: TOC_def TYPES_DICT_def)
qed

lemma plain_build:
  assumes "\<not> isUmbrella b" and "built_types e b w = Some ts"
  shows "\<exists>w'. build_with f e b w = Some (Inr (), w') \<and> cache w' = cache w \<and> head w' = head w \<and>
              map_of (files w') (types_path e b) = Some (Types ts)"
proof -
  let ?w1 = "copy_markdown e b w"
  have h1: "head ?w1 = head w" by (rule head_copy_markdown)
  have sf: "source_files e b ?w1 = source_files e b w" using h1 by (rule source_files_head)
  obtain docs where d0: "fst (build_docs e b (source_files e b w) w) = Inr docs"
    and ts: "ts = parser_createTypesDictionary e docs"
    using assms(2) by (auto simp: built_types_def split: sum.splits)
  have "fst (build_docs e b (source_files e b w) ?w1) = Inr docs"
    using build_docs_fst_head[OF h1, of e b] d0 by simp
  then obtain w2 where bd: "build_docs e b (source_files e b ?w1) ?w1 = (Inr docs, w2)"
    unfolding sf by (cases "build_docs e b (source_files e b w) ?w1") auto
  have o2: "cache w2 = cache w \<and> head w2 = head w"
    using build_docs_other[of e b "source_files e b ?w1" ?w1] bd copy_markdown_other[of e b w] h1
    by simp
  let ?toc = "(parser_createToc e ts False)\<lparr> tagName := getTagName b \<rparr>"
  let ?w3 = "builder_write e b TYPES_DICT (Types ts) w2"
  let ?w4 = "builder_write e b TOC (Toc ?toc) ?w3"
  have r: "build_with f e b w = Some (Inr (), ?w4)"
    using assms(1) bd ts by (simp add: build_with_def Let_def)
  have "files ?w4 = store_put (path_resolve (pcwd e) [dir b, TOC]) (Toc ?toc)
                      (store_put (types_path e b) (Types ts) (files w2))"
    by (simp add: builder_write_files plain_TOC plain_TYPES_DICT types_path_def)
  then have "map_of (files ?w4) (types_path e b) = Some (Types ts)"
    using types_toc_differ[of e b] by (simp add: map_of_store_put)
  moreover have "cache ?w4 = cache w \<and> head ?w4 = head w"
    using o2 by (simp add: builder_write_other)
  ultimately show ?thesis using r by blast
qed

lemma add_files_last_seg:
  assumes "f \<in> set (add_files e b w)"
  shows "last_seg f \<noteq> TYPES_DICT \<and> plain (last_seg f)"
proof -
  let ?pat = "path_resolve (pcwd e) [dir b, ''*.json'']"
  have g: "glob_match ?pat f" and nt: "f \<noteq> types_path e b"
    using assms by (auto simp: add_files_def types_path_def)
  have sp: "split_slash ?pat = [] # resolved_dir (pcwd e) [dir b] @ [''*.json'']"
    using split_path_resolve_snoc[OF plain_star_json, of "pcwd e" "[dir b]"] by simp
  have st: "split_slash (types_path e b) = [] # resolved_dir (pcwd e) [dir b] @ [TYPES_DICT]"
    using split_path_resolve_snoc[OF plain_TYPES_DICT, of "pcwd e" "[dir b]"]
    by (simp add: types_path_def)
  have bl: "butlast (split_slash f) = [] # resolved_dir (pcwd e) [dir b]"
    using g sp by (simp add: glob_match_def Let_def butlast_append)
  have ne: "last_seg f \<noteq> []" and nd: "hd (last_seg f) \<noteq> CHR ''.''"
    using g sp by (auto simp: glob_match_def Let_def last_seg_def)
  have "last_seg f \<in> set (split_slash f)"
    by (simp add: last_seg_def split_slash_not_Nil)
  then have ns: "CHR ''/'' \<notin> set (last_seg f)"
    using split_char_no_sep[of "last_seg f" "CHR ''/''" f] by (simp add: split_slash_def)
  have pl: "plain (last_seg f)"
    using ne nd ns by (cases "last_seg f") (auto simp: plain_def)
  have "last_seg f \<noteq> TYPES_DICT"
  proof
    assume "last_seg f = TYPES_DICT"
    then have "split_slash f = split_slash (types_path e b)"
      using split_slash_last_seg[of f] bl st by simp
    then show False using nt split_slash_inj by blast
  qed
  then show ?thesis using pl by simp
qed

lemma add_output_last_seg:
  assumes "plain (last_seg f)"
  shows "last_seg (path_resolve c0 [path_join [d, path_join [n, path_basename f]]]) = last_seg f"
proof -
  have ne: "last_seg f \<noteq> []" using assms by (simp add: plain_def)
  have b: "path_basename f = last_seg f" using ne by (rule path_basename_last_seg)
  have l0: "last_seg (last_seg f) = last_seg f" using assms by (rule last_seg_plain)
  have l1: "last_seg (path_join [n, last_seg f]) = last_seg f"
    using last_seg_path_join[OF assms l0, of "[n]"] by simp
  have l2: "last_seg (path_join [d, path_join [n, last_seg f]]) = last_seg f"
    using last_seg_path_join[OF assms l1, of "[d]"] by simp
  show ?thesis
    using last_seg_path_resolve[OF assms l2, of c0 "[]"] by (simp add: b)
qed

lemma add_file_keeps:
  assumes "last_seg p = TYPES_DICT" and "last_seg f \<noteq> TYPES_DICT" and "plain (last_seg f)"
  shows "map_of (cache (add_file e self b f w)) p = map_of (cache w) p \<and>
         map_of (files (add_file e self b f w)) p = map_of (files w) p"
proof -
  have fp: "p \<noteq> f" using assms(1,2) by auto
  let ?out = "path_resolve (pcwd e) [path_join [dir (the_builder self), path_join [name b, path_basename f]]]"
  have "last_seg ?out = last_seg f" using assms(3) by (rule add_output_last_seg)
  then have op: "p \<noteq> ?out" using assms(1,2) by auto
  show ?thesis
    using fp op
    by (auto simp: add_file_def js_require_def builder_write_def writeFileSync_def Let_def
          map_of_store_put split: option.splits)
qed

lemma foldl_add_file_keeps:
  assumes "last_seg p = TYPES_DICT"
    and "\<forall>f\<in>set fs. last_seg f \<noteq> TYPES_DICT \<and> plain (last_seg f)"
  shows "map_of (cache (foldl (\<lambda>w1 file. add_file e self b file w1) w fs)) p = map_of (cache w) p \<and>
         map_of (files (foldl (\<lambda>w1 file. add_file e self b file w1) w fs)) p = map_of (files w) p"
  using assms(2)
proof (induction fs arbitrary: w)
  case Nil
  then show ?case by simp
next
  case (Cons f fs)
  have "map_of (cache (add_file e self b f w)) p = map_of (cache w) p \<and>
        map_of (files (add_file e self b f w)) p = map_of (files w) p"
    using Cons.prems by (intro add_file_keeps[OF assms(1)]) auto
  moreover have "map_of (cache (foldl (\<lambda>w1 file. add_file e self b file w1) (add_file e self b f w) fs)) p
        = map_of (cache (add_file e self b f w)) p \<and>
      map_of (files (foldl (\<lambda>w1 file. add_file e self b file w1) (add_file e self b f w) fs)) p
        = map_of (files (add_file e self b f w)) p"
    using Cons.prems by (intro Cons.IH) auto
  ultimately show ?case by simp
qed

lemma add_keeps:
  "last_seg p = TYPES_DICT \<Longrightarrow>
   map_of (cache (add e self b w)) p = map_of (cache w) p \<and>
   map_of (files (add e self b w)) p = map_of (files w) p"
  unfolding add_def
  by (rule foldl_add_file_keeps) (auto dest: add_files_last_seg)

lemma getTypes_cold:
  "map_of (cache w) (types_path e b) = None \<Longrightarrow> map_of (files w) (types_path e b) = Some c \<Longrightarrow>
   getTypes e b w = (Inr c, w\<lparr> cache := store_put (types_path e b) c (cache w) \<rparr>)"
  by (simp add: getTypes_def js_require_def)

lemma getTypes_result:
  "getTypes e b w = (Inr c, w1) \<Longrightarrow>
   map_of (cache w1) (types_path e b) = Some c \<and> head w1 = head w \<and> manifest w1 = manifest w \<and>
   files w1 = files w \<and> (\<forall>p. p \<noteq> types_path e b \<longrightarrow> map_of (cache w1) p = map_of (cache w) p)"
  by (auto simp: getTypes_def js_require_def map_of_store_put split: option.splits)

lemma bundle_deps_plain:
  assumes "\<forall>d\<in>set deps. rdep_name d \<noteq> UMBRELLA_PACKAGE"
    and "distinct (map (\<lambda>d. types_path e (dep_builder e d)) deps)"
    and "\<forall>d\<in>set deps. map_of (cache w) (types_path e (dep_builder e d)) = None"
    and "map (\<lambda>d. built_types e (dep_builder e d) w) deps = map Some tss"
  shows "\<exists>w'. bundle_deps (build_with f e) e self deps w =
               Some (Inr (map (\<lambda>d. types_path e (dep_builder e d)) deps), w') \<and>
             (\<forall>p. last_seg p = TYPES_DICT \<and> p \<notin> set (map (\<lambda>d. types_path e (dep_builder e d)) deps)
                  \<longrightarrow> map_of (cache w') p = map_of (cache w) p) \<and>
             flatten_cached w' (map (\<lambda>d. types_path e (dep_builder e d)) deps) =
               concat (map2 (\<lambda>d ts. map (prefix_contents (rdep_name d)) ts) deps tss)"
  using assms
proof (induction deps arbitrary: w tss)
  case Nil
  then show ?case by simp
next
  case (Cons d ds)
  let ?P = "\<lambda>d. types_path e (dep_builder e d)"
  let ?b = "dep_builder e d"
  obtain ts tss' where tss: "tss = ts # tss'"
    and bt: "built_types e ?b w = Some ts"
    and bts: "map (\<lambda>d. built_types e (dep_builder e d) w) ds = map Some tss'"
    using Cons.prems(4) by (cases tss) auto
  have nu: "\<not> isUmbrella ?b"
    using Cons.prems(1) by (simp add: dep_builder_def Builder_def Let_def)
  let ?w1 = "submodule_checkout (getTagName ?b) w"
  have w1: "cache ?w1 = cache w" "head ?w1 = head w" "files ?w1 = files w"
    by (simp_all add: submodule_checkout_def)
  have bt1: "built_types e ?b ?w1 = Some ts"
    using bt built_types_head[OF w1(2), of e ?b] by simp
  from plain_build[OF nu bt1, of f]
  obtain w2 where b2: "build_with f e ?b ?w1 = Some (Inr (), w2)"
    and c2: "cache w2 = cache w" and h2: "head w2 = head w"
    and f2: "map_of (files w2) (?P d) = Some (Types ts)"
    using w1 by auto
  let ?w3 = "add e self ?b w2"
  have k3: "\<And>p. last_seg p = TYPES_DICT \<Longrightarrow> map_of (cache ?w3) p = map_of (cache w) p"
    using add_keeps[where e = e and self = self and b = ?b and w = w2] c2 by simp
  have f3: "map_of (files ?w3) (?P d) = Some (Types ts)"
    using add_keeps[where p = "?P d" and e = e and self = self and b = ?b and w = w2,
            OF last_seg_types_path] f2 by simp
  have cold3: "map_of (cache ?w3) (?P d) = None"
    using k3[OF last_seg_types_path] Cons.prems(3) by simp
  let ?w4 = "?w3\<lparr> cache := store_put (?P d) (Types ts) (cache ?w3) \<rparr>"
  have g4: "getTypes e ?b ?w3 = (Inr (Types ts), ?w4)"
    using getTypes_cold[OF cold3 f3] .
  let ?w5 = "?w4\<lparr> cache := store_put (?P d) (Types (map (prefix_contents (rdep_name d)) ts)) (cache ?w4) \<rparr>"
  have h5: "head ?w5 = head w"
    using add_git_fields[of e self ?b w2] h2 by simp
  have c5: "\<And>p. last_seg p = TYPES_DICT \<Longrightarrow> p \<noteq> ?P d \<Longrightarrow> map_of (cache ?w5) p = map_of (cache w) p"
    using k3 by (simp add: map_of_store_put)
  have c5d: "map_of (cache ?w5) (?P d) = Some (Types (map (prefix_contents (rdep_name d)) ts))"
    by (simp add: map_of_store_put)
  have dd: "?P d \<notin> set (map ?P ds)" and dist: "distinct (map ?P ds)"
    using Cons.prems(2) by auto
  have ih1: "\<forall>d\<in>set ds. rdep_name d \<noteq> UMBRELLA_PACKAGE" using Cons.prems(1) by simp
  have ih3: "\<forall>d'\<in>set ds. map_of (cache ?w5) (?P d') = None"
  proof
    fix d' assume d': "d' \<in> set ds"
    then have "?P d' \<in> set (map ?P ds)" by simp
    then have "?P d' \<noteq> ?P d" using dd by metis
    then show "map_of (cache ?w5) (?P d') = None"
      using c5[OF last_seg_types_path, of e "dep_builder e d'"] Cons.prems(3) d' by simp
  qed
  have ih4: "map (\<lambda>d. built_types e (dep_builder e d) ?w5) ds = map Some tss'"
    using bts built_types_head[OF h5, of e] by simp
  from Cons.IH[OF ih1 dist ih3 ih4]
  obtain w' where r: "bundle_deps (build_with f e) e self ds ?w5 = Some (Inr (map ?P ds), w')"
    and fr: "\<forall>p. last_seg p = TYPES_DICT \<and> p \<notin> set (map ?P ds)
                  \<longrightarrow> map_of (cache w') p = map_of (cache ?w5) p"
    and fl: "flatten_cached w' (map ?P ds) =
               concat (map2 (\<lambda>d ts. map (prefix_contents (rdep_name d)) ts) ds tss')"
    by blast
  have res: "bundle_deps (build_with f e) e self (d # ds) w = Some (Inr (map ?P (d # ds)), w')"
    using b2 g4 r by (simp add: Let_def dep_builder_def)
  have frame: "\<forall>p. last_seg p = TYPES_DICT \<and> p \<notin> set (map ?P (d # ds))
                  \<longrightarrow> map_of (cache w') p = map_of (cache w) p"
    using fr c5 by auto
  have "map_of (cache w') (?P d) = Some (Types (map (prefix_contents (rdep_name d)) ts))"
    using fr dd c5d last_seg_types_path[of e ?b] by simp
  then have "flatten_cached w' (map ?P (d # ds)) =
        concat (map2 (\<lambda>d ts. map (prefix_contents (rdep_name d)) ts) (d # ds) tss)"
    using fl tss by (simp add: cached_types_def)
  then show ?case using res frame by blast
qed

subsection \<open>Tag names\<close>

text \<open>
  Claim C1, as the code has it. For every package name \<open>p\<close> and version \<open>v\<close>,
  \<^verbatim>\<open>new Builder(p, v).getTagName()\<close> is the default version "master" when \<open>v\<close> is
  missing or the empty string; otherwise it is \<open>v\<close> unchanged when \<open>v\<close> is the default
  version, "v" followed by \<open>v\<close> when \<open>p\<close> is the umbrella package, and \<open>p\<close>, a dash
  and \<open>v\<close> in every other case.
\<close>

theorem getTagName_of_Builder:
  "getTagName (Builder p v cwd) =
     (case v of
        None \<Rightarrow> DEFAULT_VERSION
      | Some s \<Rightarrow>
          if s = [] then DEFAULT_VERSION
          else if s = DEFAULT_VERSION then s
          else if p = UMBRELLA_PACKAGE then ''v'' @ s
          else p @ ''-'' @ s)"
  by (simp add: getTagName_def Builder_def or_default_def Let_def split: option.splits)

text \<open>
  Claim C1 as it is worded fails for the empty version string: it is not the default
  version and \<^verbatim>\<open>bigtable\<close> is not the umbrella package, yet the tag is "master" and
  not \<^verbatim>\<open>bigtable-\<close>.
\<close>

theorem getTagName_empty_version_counterexample:
  "[] \<noteq> DEFAULT_VERSION \<and> ''bigtable'' \<noteq> UMBRELLA_PACKAGE \<and>
   getTagName (Builder ''bigtable'' (Some []) None) = ''master'' \<and>
   getTagName (Builder ''bigtable'' (Some []) None) \<noteq> ''bigtable'' @ ''-'' @ []"
  by (simp add: getTagName_def Builder_def or_default_def Let_def DEFAULT_VERSION_def
                UMBRELLA_PACKAGE_def)

subsection \<open>The two ways to make a Bundler\<close>

text \<open>
  Claim C9. A Bundler made from a version string \<open>v\<close> is the Bundler made from
  \<^verbatim>\<open>new Builder(UMBRELLA_PACKAGE, v)\<close>, and so the methods \<^verbatim>\<open>add\<close> and \<^verbatim>\<open>bundle\<close> do
  the same on both for every argument and state (\<^verbatim>\<open>getDeps\<close> does not read the Bundler
  at all).
\<close>

theorem Bundler_of_version:
  "Bundler (AVersion v) = Bundler (ABuilder (Builder UMBRELLA_PACKAGE (Some v) None)) \<and>
   add e (Bundler (AVersion v)) b w =
     add e (Bundler (ABuilder (Builder UMBRELLA_PACKAGE (Some v) None))) b w \<and>
   Bundler_bundle n e (Bundler (AVersion v)) w =
     Bundler_bundle n e (Bundler (ABuilder (Builder UMBRELLA_PACKAGE (Some v) None))) w"
  by (simp add: Bundler_def)

subsection \<open>The manifest\<close>

text \<open>
  Claim C4. Running \<^verbatim>\<open>updateManifest\<close> twice on the same Builder leaves the state
  (the manifest in memory and the manifest file) that running it once leaves; and when
  the manifest did not already hold the version more than once for the module, the
  module's versions hold it exactly once afterwards.
\<close>

theorem updateManifest_idempotent:
  "updateManifest e b (updateManifest e b w) = updateManifest e b w \<and>
   (count_list (module_versions (name b) (manifest w)) (version b) \<le> 1 \<longrightarrow>
    count_list (module_versions (name b) (manifest (updateManifest e b (updateManifest e b w))))
      (version b) = 1)"
proof -
  have idem: "updateManifest e b (updateManifest e b w) = updateManifest e b w"
    by (simp add: updateManifest_def writeFileSync_def Let_def updateModules_idem store_put_idem)
  have "count_list (module_versions (name b) (manifest (updateManifest e b w))) (version b) =
        max 1 (count_list (module_versions (name b) (manifest w)) (version b))"
    by (simp add: manifest_updateManifest module_versions_updateModules)
  with idem show ?thesis by auto
qed

theorem updateManifest_idempotent_witness:
  "count_list (module_versions (name (Builder ''bigtable'' (Some ''0.4.1'') None))
      (manifest empty_world)) (version (Builder ''bigtable'' (Some ''0.4.1'') None)) \<le> 1 \<and>
   updateManifest example_env (Builder ''bigtable'' (Some ''0.4.1'') None)
     (updateManifest example_env (Builder ''bigtable'' (Some ''0.4.1'') None) empty_world) =
   updateManifest example_env (Builder ''bigtable'' (Some ''0.4.1'') None) empty_world \<and>
   count_list (module_versions (name (Builder ''bigtable'' (Some ''0.4.1'') None))
      (manifest (updateManifest example_env (Builder ''bigtable'' (Some ''0.4.1'') None)
         (updateManifest example_env (Builder ''bigtable'' (Some ''0.4.1'') None) empty_world))))
      (version (Builder ''bigtable'' (Some ''0.4.1'') None)) = 1"
proof -
  have h: "count_list (module_versions (name (Builder ''bigtable'' (Some ''0.4.1'') None))
      (manifest empty_world)) (version (Builder ''bigtable'' (Some ''0.4.1'') None)) \<le> 1"
    by (simp add: empty_world_def module_versions_def findWhere_obj_Nil)
  show ?thesis
    using h updateManifest_idempotent
      [of example_env "Builder ''bigtable'' (Some ''0.4.1'') None" empty_world]
    by blast
qed

text \<open>
  Claim C5. When the umbrella module, if the manifest has one, is first in the module
  list, then it still is after any sequence of \<^verbatim>\<open>updateManifest\<close> calls, whatever
  modules they insert and in whatever order; this holds in particular from the empty
  manifest.
\<close>

theorem umbrella_first_invariant:
  "umbrella_first (manifest w) \<Longrightarrow>
   umbrella_first (manifest (foldl (\<lambda>w1 b. updateManifest e b w1) w bs))"
  by (induction bs arbitrary: w) (simp_all add: manifest_updateManifest umbrella_first_updateModules)

theorem umbrella_first_invariant_witness:
  "umbrella_first (manifest empty_world) \<and>
   umbrella_first (manifest (foldl (\<lambda>w1 b. updateManifest example_env b w1) empty_world
     [Builder ''vision'' (Some ''0.5.0'') None,
      Builder ''google-cloud'' (Some ''0.44.0'') None,
      Builder ''bigtable'' (Some ''0.4.1'') None])) \<and>
   map mod_id (manifest (foldl (\<lambda>w1 b. updateManifest example_env b w1) empty_world
     [Builder ''vision'' (Some ''0.5.0'') None,
      Builder ''google-cloud'' (Some ''0.44.0'') None,
      Builder ''bigtable'' (Some ''0.4.1'') None])) =
     [''google-cloud'', ''bigtable'', ''vision'']"
proof -
  have h: "umbrella_first (manifest empty_world)"
    by (simp add: empty_world_def umbrella_first_def)
  have ids: "map mod_id (manifest (foldl (\<lambda>w1 b. updateManifest example_env b w1) empty_world
     [Builder ''vision'' (Some ''0.5.0'') None,
      Builder ''google-cloud'' (Some ''0.44.0'') None,
      Builder ''bigtable'' (Some ''0.4.1'') None])) =
     [''google-cloud'', ''bigtable'', ''vision'']"
    by code_simp
  show ?thesis
    using h ids umbrella_first_invariant [OF h, of example_env
      "[Builder ''vision'' (Some ''0.5.0'') None,
        Builder ''google-cloud'' (Some ''0.44.0'') None,
        Builder ''bigtable'' (Some ''0.4.1'') None]"]
    by blast
qed

subsection \<open>Propagation refuses the master build\<close>

text \<open>
  Claim C6. When \<^verbatim>\<open>builder.isMaster\<close> holds, \<^verbatim>\<open>Bundler.updateDep(builder)\<close> throws an
  Error whose message says that a valid version must be supplied, and the state is what
  it was: no bundle, no manifest entry, no file and no git position has changed.
\<close>

theorem updateDep_master:
  "isMaster b \<Longrightarrow>
   updateDep e b w = (Inl (Error ''Must supply valid version to update bundles with.''), w)"
  by (simp add: updateDep_def)

theorem updateDep_master_witness:
  "isMaster (Builder ''bigtable'' None None) \<and>
   updateDep example_env (Builder ''bigtable'' None None) empty_world =
     (Inl (Error ''Must supply valid version to update bundles with.''), empty_world)"
proof -
  have h: "isMaster (Builder ''bigtable'' None None)"
    by (simp add: Builder_def or_default_def)
  show ?thesis using h updateDep_master [OF h, of example_env empty_world] by blast
qed

subsection \<open>Propagation into the umbrella's bundles\<close>

text \<open>
  Claim C2, as the code has it. \<^verbatim>\<open>Bundler.updateDep(builder)\<close> walks the umbrella's
  recorded versions in the order of the list, which holds the version recorded last
  first, and leaves the last entry of the list out. It adds the builder's docs to the
  bundle of each version as long as the builder's version is the maximum recorded
  version that satisfies the range this umbrella version declares, and stops at the
  first version where it is not: that version is still checked out, no later one is.
\<close>

theorem updateDep_propagates:
  assumes "\<not> isMaster b"
    and "findWhere_obj (manifest w) (\<lambda>m. mod_id m = UMBRELLA_PACKAGE) = Some bundleConfig"
    and "findWhere_obj (manifest w) (\<lambda>m. mod_id m = name b) = Some config"
  shows "checked_out w (snd (updateDep e b w)) =
           map umbrella_tag
             (take (Suc (length (takeWhile (still_max e b (valid_versions e (versions config)))
                                   (butlast (versions bundleConfig)))))
                (butlast (versions bundleConfig))) \<and>
         output_state (snd (updateDep e b w)) =
           output_state
             (add_to_bundles e b
                (takeWhile (still_max e b (valid_versions e (versions config)))
                   (butlast (versions bundleConfig))) w)"
  using assms by (simp add: updateDep_unfold updateDep_loop_checked_out updateDep_loop_output)

theorem updateDep_propagates_witness:
  "\<not> isMaster bigtable_041 \<and>
   findWhere_obj (manifest built_world) (\<lambda>m. mod_id m = UMBRELLA_PACKAGE) = Some umbrella_config \<and>
   findWhere_obj (manifest built_world) (\<lambda>m. mod_id m = name bigtable_041) = Some bigtable_config \<and>
   checked_out built_world (snd (updateDep example_env bigtable_041 built_world)) =
     [''v0.45.0'', ''v0.44.0''] \<and>
   output_state (snd (updateDep example_env bigtable_041 built_world)) =
     output_state (add_to_bundles example_env bigtable_041 [''0.45.0''] built_world) \<and>
   map fst (files built_world) =
     [''/repo/docs/json/bigtable/0.4.1/index.json'',
      ''/repo/docs/json/bigtable/0.4.1/table.json'',
      ''/repo/docs/json/bigtable/0.4.1/types.json'',
      ''/repo/docs/json/bigtable/0.4.1/toc.json''] \<and>
   map fst (files (snd (updateDep example_env bigtable_041 built_world))) =
     [''/repo/docs/json/bigtable/0.4.1/index.json'',
      ''/repo/docs/json/bigtable/0.4.1/table.json'',
      ''/repo/docs/json/bigtable/0.4.1/types.json'',
      ''/repo/docs/json/bigtable/0.4.1/toc.json'',
      ''/repo/docs/json/google-cloud/0.45.0/bigtable/index.json'',
      ''/repo/docs/json/google-cloud/0.45.0/bigtable/table.json'']"
proof -
  have f0: "map fst (files built_world) =
     [''/repo/docs/json/bigtable/0.4.1/index.json'',
      ''/repo/docs/json/bigtable/0.4.1/table.json'',
      ''/repo/docs/json/bigtable/0.4.1/types.json'',
      ''/repo/docs/json/bigtable/0.4.1/toc.json'']" by code_simp
  have f1: "map fst (files (snd (updateDep example_env bigtable_041 built_world))) =
     [''/repo/docs/json/bigtable/0.4.1/index.json'',
      ''/repo/docs/json/bigtable/0.4.1/table.json'',
      ''/repo/docs/json/bigtable/0.4.1/types.json'',
      ''/repo/docs/json/bigtable/0.4.1/toc.json'',
      ''/repo/docs/json/google-cloud/0.45.0/bigtable/index.json'',
      ''/repo/docs/json/google-cloud/0.45.0/bigtable/table.json'']" by code_simp
  have h1: "\<not> isMaster bigtable_041" by code_simp
  have h2: "findWhere_obj (manifest built_world) (\<lambda>m. mod_id m = UMBRELLA_PACKAGE) =
              Some umbrella_config" by code_simp
  have h3: "findWhere_obj (manifest built_world) (\<lambda>m. mod_id m = name bigtable_041) =
              Some bigtable_config" by code_simp
  have good: "takeWhile (still_max example_env bigtable_041
                  (valid_versions example_env (versions bigtable_config)))
                (butlast (versions umbrella_config)) = [''0.45.0'']" by code_simp
  have tags: "map umbrella_tag (take (Suc (length [''0.45.0''])) (butlast (versions umbrella_config)))
                = [''v0.45.0'', ''v0.44.0'']" by code_simp
  show ?thesis
    using h1 h2 h3 f0 f1 updateDep_propagates [OF h1 h2 h3, of example_env]
    unfolding good tags by blast
qed

text \<open>
  Claim C2 as it is worded has the walk go from the oldest version to the newest. The
  umbrella release 0.44.0 is recorded before 0.45.0, and the walk checks out 0.45.0
  first.
\<close>

theorem updateDep_order_counterexample:
  "module_versions UMBRELLA_PACKAGE
     (manifest (updateManifest example_env (Builder ''google-cloud'' (Some ''0.44.0'') None)
        empty_world)) = [''0.44.0'', ''master''] \<and>
   module_versions UMBRELLA_PACKAGE (manifest recorded_world) =
     [''0.45.0'', ''0.44.0'', ''master''] \<and>
   checked_out recorded_world (snd (updateDep example_env bigtable_041 recorded_world)) =
     [''v0.45.0'', ''v0.44.0''] \<and>
   checked_out recorded_world (snd (updateDep example_env bigtable_041 recorded_world)) \<noteq>
     [''v0.44.0'', ''v0.45.0'']"
  by code_simp

text \<open>
  Claim C3. When the umbrella version at position \<open>i\<close> of the versions that
  \<^verbatim>\<open>updateDep\<close> may visit declares a range whose maximum satisfying version is not the
  builder's version, then \<^verbatim>\<open>add\<close> is called for versions before position \<open>i\<close> only:
  the manifest, the output tree and the module cache end as those calls leave them, so
  the bundle of that version is not written to.
\<close>

theorem updateDep_not_resolved:
  assumes "\<not> isMaster b"
    and "findWhere_obj (manifest w) (\<lambda>m. mod_id m = UMBRELLA_PACKAGE) = Some bundleConfig"
    and "findWhere_obj (manifest w) (\<lambda>m. mod_id m = name b) = Some config"
    and "i < length (butlast (versions bundleConfig))"
    and "\<not> still_max e b (valid_versions e (versions config)) (butlast (versions bundleConfig) ! i)"
  shows "output_state (snd (updateDep e b w)) =
           output_state
             (add_to_bundles e b
                (takeWhile (still_max e b (valid_versions e (versions config)))
                   (take i (butlast (versions bundleConfig)))) w)"
  using assms takeWhile_stop[of i "butlast (versions bundleConfig)"
      "still_max e b (valid_versions e (versions config))"]
  by (simp add: updateDep_unfold updateDep_loop_output)

theorem updateDep_not_resolved_witness:
  "\<not> isMaster bigtable_041 \<and>
   findWhere_obj (manifest built_world) (\<lambda>m. mod_id m = UMBRELLA_PACKAGE) = Some umbrella_config \<and>
   findWhere_obj (manifest built_world) (\<lambda>m. mod_id m = name bigtable_041) = Some bigtable_config \<and>
   1 < length (butlast (versions umbrella_config)) \<and>
   butlast (versions umbrella_config) ! 1 = ''0.44.0'' \<and>
   \<not> still_max example_env bigtable_041 (valid_versions example_env (versions bigtable_config))
       (butlast (versions umbrella_config) ! 1) \<and>
   output_state (snd (updateDep example_env bigtable_041 built_world)) =
     output_state (add_to_bundles example_env bigtable_041 [''0.45.0''] built_world) \<and>
   map_of (files (snd (updateDep example_env bigtable_041 built_world)))
     ''/repo/docs/json/google-cloud/0.44.0/bigtable/index.json'' = None"
proof -
  have h1: "\<not> isMaster bigtable_041" by code_simp
  have h2: "findWhere_obj (manifest built_world) (\<lambda>m. mod_id m = UMBRELLA_PACKAGE) =
              Some umbrella_config" by code_simp
  have h3: "findWhere_obj (manifest built_world) (\<lambda>m. mod_id m = name bigtable_041) =
              Some bigtable_config" by code_simp
  have h4: "1 < length (butlast (versions umbrella_config))" by code_simp
  have h5: "\<not> still_max example_env bigtable_041
                (valid_versions example_env (versions bigtable_config))
                (butlast (versions umbrella_config) ! 1)" by code_simp
  have v: "butlast (versions umbrella_config) ! 1 = ''0.44.0''" by code_simp
  have good: "takeWhile (still_max example_env bigtable_041
                  (valid_versions example_env (versions bigtable_config)))
                (take 1 (butlast (versions umbrella_config))) = [''0.45.0'']" by code_simp
  have f: "map_of (files (snd (updateDep example_env bigtable_041 built_world)))
     ''/repo/docs/json/google-cloud/0.44.0/bigtable/index.json'' = None" by code_simp
  show ?thesis
    using h1 h2 h3 h4 h5 v f updateDep_not_resolved [OF h1 h2 h3 h4 h5]
    unfolding good by blast
qed

text \<open>
  Claim C10. \<^verbatim>\<open>Bundler.updateDep\<close> checks out the first \<open>k\<close> recorded umbrella versions
  for some \<open>k\<close> below the length of the list, so never the last one; and when the
  umbrella has exactly one recorded version, the state after \<^verbatim>\<open>updateDep\<close> is the state
  before it: nothing was checked out and nothing was added to a bundle.
\<close>

theorem updateDep_skips_last:
  assumes "findWhere_obj (manifest w) (\<lambda>m. mod_id m = UMBRELLA_PACKAGE) = Some bundleConfig"
  shows "(\<exists>k. k \<le> length (versions bundleConfig) - 1 \<and>
            checked_out w (snd (updateDep e b w)) = map umbrella_tag (take k (versions bundleConfig))) \<and>
         (length (versions bundleConfig) = 1 \<longrightarrow> snd (updateDep e b w) = w)"
proof -
  let ?us = "butlast (versions bundleConfig)"
  have none: "checked_out w w = map umbrella_tag (take 0 (versions bundleConfig))"
    by (simp add: checked_out_def)
  have one: "length (versions bundleConfig) = 1 \<Longrightarrow> ?us = []"
    by (cases "versions bundleConfig") auto
  show ?thesis
  proof (cases "isMaster b \<or> findWhere_obj (manifest w) (\<lambda>m. mod_id m = name b) = None")
    case True
    then have "snd (updateDep e b w) = w"
      using assms by (auto simp: updateDep_def)
    with none show ?thesis by force
  next
    case False
    then obtain config where c: "findWhere_obj (manifest w) (\<lambda>m. mod_id m = name b) = Some config"
      and m: "\<not> isMaster b" by auto
    let ?vs = "valid_versions e (versions config)"
    have u: "updateDep e b w = updateDep_loop e b ?vs ?us w"
      using m assms c by (rule updateDep_unfold)
    let ?k = "min (Suc (length (takeWhile (still_max e b ?vs) ?us))) (length (versions bundleConfig) - 1)"
    have "take (Suc (length (takeWhile (still_max e b ?vs) ?us))) ?us = take ?k (versions bundleConfig)"
      by (simp add: butlast_conv_take min.commute)
    then have "checked_out w (snd (updateDep e b w)) = map umbrella_tag (take ?k (versions bundleConfig))"
      by (simp add: u updateDep_loop_checked_out)
    moreover have "?k \<le> length (versions bundleConfig) - 1" by simp
    moreover have "length (versions bundleConfig) = 1 \<longrightarrow> snd (updateDep e b w) = w"
      using one by (auto simp: u)
    ultimately show ?thesis by blast
  qed
qed

theorem updateDep_skips_last_witness:
  "findWhere_obj (manifest master_world) (\<lambda>m. mod_id m = UMBRELLA_PACKAGE) = Some master_config \<and>
   length (versions master_config) = 1 \<and>
   snd (updateDep example_env bigtable_041 master_world) = master_world \<and>
   checked_out master_world (snd (updateDep example_env bigtable_041 master_world)) = []"
proof -
  have h1: "findWhere_obj (manifest master_world) (\<lambda>m. mod_id m = UMBRELLA_PACKAGE) =
              Some master_config" by code_simp
  have h2: "length (versions master_config) = 1" by code_simp
  have "snd (updateDep example_env bigtable_041 master_world) = master_world"
    using h2 updateDep_skips_last [OF h1, of example_env bigtable_041] by blast
  then show ?thesis using h1 h2 by (simp add: checked_out_def)
qed

subsection \<open>A file that does not parse\<close>

text \<open>
  Claim C7. When the parser fails on a source file of the package, and on none of the
  files before it, then \<^verbatim>\<open>build\<close> throws an Error whose message is "Unable to generate
  docs for file: ", the file, ". Reason: " and the parser's message; and the build stops
  there: the state is the one reached after the files before the failing one were
  written, so no later file is parsed or written, and no type dictionary or table of
  contents.
\<close>

theorem build_parse_failure:
  assumes "source_files e b (copy_markdown e b w) = pre @ file # post"
    and "\<forall>g\<in>set pre. parses e w g"
    and "map_of (tree e (head w)) (path_join [PACKAGES_ROOT, file]) = Some text"
    and "parser_parseFile e (path_join [PACKAGES_ROOT, file]) text = Inl message"
  shows "build n e b w =
           Some (Inl (Error (''Unable to generate docs for file: '' @ file @
                              ''. Reason: '' @ message)),
                 snd (build_docs e b pre (copy_markdown e b w))) \<and>
         (\<exists>docs. fst (build_docs e b pre (copy_markdown e b w)) = Inr docs)"
proof -
  let ?w1 = "copy_markdown e b w"
  let ?err = "Error (''Unable to generate docs for file: '' @ file @ ''. Reason: '' @ message)"
  have h: "head ?w1 = head w" by (rule head_copy_markdown)
  have f: "parseFile e file ?w1 = Inl ?err"
    using assms(3,4) by (simp add: parseFile_def h Let_def)
  have p: "\<forall>g\<in>set pre. parses e ?w1 g"
    using assms(2) parseFile_head[OF h] by (simp add: parses_def)
  from build_docs_failure[OF p f, of b post]
  show ?thesis
    using assms(1) by (simp add: build_def build_with_def Let_def)
qed

theorem build_parse_failure_witness:
  "source_files broken_env bigtable_041 (copy_markdown broken_env bigtable_041 empty_world) =
     [''bigtable/src/index.js''] @ ''bigtable/src/table.js'' # [''bigtable/src/zone.js''] \<and>
   parses broken_env empty_world ''bigtable/src/index.js'' \<and>
   map_of (tree broken_env (head empty_world)) (path_join [PACKAGES_ROOT, ''bigtable/src/table.js''])
     = Some ''syntax error'' \<and>
   parser_parseFile broken_env (path_join [PACKAGES_ROOT, ''bigtable/src/table.js'']) ''syntax error''
     = Inl ''Unexpected token'' \<and>
   build 0 broken_env bigtable_041 empty_world =
     Some (Inl (Error ''Unable to generate docs for file: bigtable/src/table.js. Reason: Unexpected token''),
           snd (build_docs broken_env bigtable_041 [''bigtable/src/index.js'']
                  (copy_markdown broken_env bigtable_041 empty_world))) \<and>
   map fst (files (snd (build_docs broken_env bigtable_041 [''bigtable/src/index.js'']
                  (copy_markdown broken_env bigtable_041 empty_world)))) =
     [''/repo/docs/json/bigtable/0.4.1/index.json'']"
proof -
  have h1: "source_files broken_env bigtable_041 (copy_markdown broken_env bigtable_041 empty_world) =
     [''bigtable/src/index.js''] @ ''bigtable/src/table.js'' # [''bigtable/src/zone.js'']"
    by code_simp
  have h2: "\<forall>g\<in>set [''bigtable/src/index.js'']. parses broken_env empty_world g"
    by code_simp
  have h3: "map_of (tree broken_env (head empty_world))
      (path_join [PACKAGES_ROOT, ''bigtable/src/table.js'']) = Some ''syntax error''"
    by code_simp
  have h4: "parser_parseFile broken_env (path_join [PACKAGES_ROOT, ''bigtable/src/table.js''])
      ''syntax error'' = Inl ''Unexpected token''"
    by code_simp
  have f: "map fst (files (snd (build_docs broken_env bigtable_041 [''bigtable/src/index.js'']
                  (copy_markdown broken_env bigtable_041 empty_world)))) =
     [''/repo/docs/json/bigtable/0.4.1/index.json'']"
    by code_simp
  have m: "''Unable to generate docs for file: '' @ ''bigtable/src/table.js'' @ ''. Reason: '' @
           ''Unexpected token'' =
           ''Unable to generate docs for file: bigtable/src/table.js. Reason: Unexpected token''"
    by simp
  show ?thesis
    using h1 h2 h3 h4 f build_parse_failure [OF h1 h2 h3 h4, of 0]
    unfolding m by simp
qed

subsection \<open>The combined type dictionary\<close>

text \<open>
  The first bundle of a process. Let \<^verbatim>\<open>bundle\<close> run in a state where \<^verbatim>\<open>getTypes\<close>
  gives the umbrella's own type entries \<open>base\<close>, the declared dependencies resolve to
  \<open>deps\<close>, none of them is the umbrella itself, the type dictionaries of the umbrella
  and of the dependencies are different files, none of the dependencies' dictionaries
  has been loaded with \<^verbatim>\<open>require\<close> before, and every dependency's sources parse, giving
  the type dictionaries \<open>tss\<close>. Then \<^verbatim>\<open>bundle\<close> returns, and the type dictionary it has
  written for the umbrella is \<open>base\<close>, unchanged, followed by the entries of each
  dependency in turn, each with \<^verbatim>\<open>path.join(dep.name, contents)\<close> for its contents.
\<close>

lemma bundle_types_dictionary:
  assumes "getTypes e (the_builder self) w = (Inr (Types base), w1)"
    and "getDeps e w = Inr ds"
    and "resolve_deps e (manifest w) ds = Inr deps"
    and "\<forall>d\<in>set deps. rdep_name d \<noteq> UMBRELLA_PACKAGE"
    and "distinct (types_path e (the_builder self) # map (\<lambda>d. types_path e (dep_builder e d)) deps)"
    and "\<forall>d\<in>set deps. map_of (cache w) (types_path e (dep_builder e d)) = None"
    and "map (\<lambda>d. built_types e (dep_builder e d) w) deps = map Some tss"
  shows "\<exists>w'. Bundler_bundle (Suc n) e self w = Some (Inr (), w') \<and>
              map_of (files w') (types_path e (the_builder self)) =
                Some (Types (base @
                  concat (map2 (\<lambda>d ts. map (prefix_contents (rdep_name d)) ts) deps tss)))"
proof -
  let ?ub = "the_builder self"
  let ?P = "\<lambda>d. types_path e (dep_builder e d)"
  let ?f = "Bundler_bundle n e"
  note g1 = getTypes_result[OF assms(1)]
  have gd: "getDeps e w1 = Inr ds" using assms(2) g1 by (simp add: getDeps_def)
  have rd: "resolve_deps e (manifest w1) ds = Inr deps" using assms(3) g1 by simp
  let ?w2 = "git_submodule ''master'' ''bundler'' w1"
  have w2: "cache ?w2 = cache w1" "head ?w2 = head w" "files ?w2 = files w1"
    using g1 by (simp_all add: git_submodule_def)
  have p0: "types_path e ?ub \<notin> set (map ?P deps)" and dist: "distinct (map ?P deps)"
    using assms(5) by auto
  have cold: "\<forall>d\<in>set deps. map_of (cache ?w2) (?P d) = None"
  proof
    fix d assume d: "d \<in> set deps"
    then have "?P d \<in> set (map ?P deps)" by simp
    then have "?P d \<noteq> types_path e ?ub" using p0 by metis
    then show "map_of (cache ?w2) (?P d) = None"
      using g1 assms(6) d w2(1) by simp
  qed
  have bt: "map (\<lambda>d. built_types e (dep_builder e d) ?w2) deps = map Some tss"
    using assms(7) built_types_head[OF w2(2), of e] by simp
  from bundle_deps_plain[OF assms(4) dist cold bt, of ?f self]
  obtain w3 where r: "bundle_deps (build_with ?f e) e self deps ?w2 = Some (Inr (map ?P deps), w3)"
    and fr: "\<forall>p. last_seg p = TYPES_DICT \<and> p \<notin> set (map ?P deps)
                  \<longrightarrow> map_of (cache w3) p = map_of (cache ?w2) p"
    and fl: "flatten_cached w3 (map ?P deps) =
               concat (map2 (\<lambda>d ts. map (prefix_contents (rdep_name d)) ts) deps tss)"
    by blast
  have "map_of (cache w3) (types_path e ?ub) = Some (Types base)"
    using fr p0 last_seg_types_path[of e ?ub] g1 w2(1) by simp
  then have ct: "cached_types w3 (types_path e ?ub) = Some base"
    by (simp add: cached_types_def)
  let ?types = "base @ concat (map2 (\<lambda>d ts. map (prefix_contents (rdep_name d)) ts) deps tss)"
  let ?toc = "(parser_createToc e ?types True)\<lparr> tagName := getTagName ?ub \<rparr>"
  let ?w4 = "builder_write e ?ub TYPES_DICT (Types ?types) w3"
  let ?w5 = "builder_write e ?ub TOC (Toc ?toc) ?w4"
  have res: "Bundler_bundle (Suc n) e self w = Some (Inr (), git_deinit ?w5)"
    using assms(1) gd rd r ct fl by (simp add: bundle_with_def Let_def)
  have "files (git_deinit ?w5) = store_put (path_resolve (pcwd e) [dir ?ub, TOC]) (Toc ?toc)
                      (store_put (types_path e ?ub) (Types ?types) (files w3))"
    by (simp add: git_deinit_def builder_write_files plain_TOC plain_TYPES_DICT types_path_def)
  then have "map_of (files (git_deinit ?w5)) (types_path e ?ub) = Some (Types ?types)"
    using types_toc_differ[of e ?ub] by (simp add: map_of_store_put)
  then show ?thesis using res by blast
qed

lemma bundle_types_dictionary_example:
  "getTypes example_env (the_builder (Bundler (ABuilder umbrella_045))) umbrella_world =
     (Inr (Types [\<lparr> ty_name = ''gcloud'', contents = ''index.json'' \<rparr>]),
      snd (getTypes example_env (the_builder (Bundler (ABuilder umbrella_045))) umbrella_world)) \<and>
   getDeps example_env umbrella_world =
     Inr [\<lparr> dep_name = ''bigtable'', dep_version = ''^0.4.0'' \<rparr>] \<and>
   resolve_deps example_env (manifest umbrella_world)
     [\<lparr> dep_name = ''bigtable'', dep_version = ''^0.4.0'' \<rparr>] = Inr [bigtable_resolved] \<and>
   rdep_name bigtable_resolved \<noteq> UMBRELLA_PACKAGE \<and>
   distinct [types_path example_env (the_builder (Bundler (ABuilder umbrella_045))),
             types_path example_env (dep_builder example_env bigtable_resolved)] \<and>
   map_of (cache umbrella_world) (types_path example_env (dep_builder example_env bigtable_resolved))
     = None \<and>
   built_types example_env (dep_builder example_env bigtable_resolved) umbrella_world =
     Some [\<lparr> ty_name = ''bigtable'', contents = ''index.json'' \<rparr>,
           \<lparr> ty_name = ''table'', contents = ''table.json'' \<rparr>] \<and>
   (\<exists>w'. Bundler_bundle (Suc 0) example_env (Bundler (ABuilder umbrella_045)) umbrella_world =
            Some (Inr (), w') \<and>
         map_of (files w') (types_path example_env (the_builder (Bundler (ABuilder umbrella_045)))) =
            Some (Types [\<lparr> ty_name = ''gcloud'', contents = ''index.json'' \<rparr>,
                         \<lparr> ty_name = ''bigtable'', contents = ''bigtable/index.json'' \<rparr>,
                         \<lparr> ty_name = ''table'', contents = ''bigtable/table.json'' \<rparr>]))"
proof -
  let ?self = "Bundler (ABuilder umbrella_045)"
  let ?base = "[\<lparr> ty_name = ''gcloud'', contents = ''index.json'' \<rparr>]"
  let ?ds = "[\<lparr> dep_name = ''bigtable'', dep_version = ''^0.4.0'' \<rparr>]"
  let ?ts = "[\<lparr> ty_name = ''bigtable'', contents = ''index.json'' \<rparr>,
              \<lparr> ty_name = ''table'', contents = ''table.json'' \<rparr>]"
  have h1: "getTypes example_env (the_builder ?self) umbrella_world =
     (Inr (Types ?base), snd (getTypes example_env (the_builder ?self) umbrella_world))"
    by code_simp
  have h2: "getDeps example_env umbrella_world = Inr ?ds" by code_simp
  have h3: "resolve_deps example_env (manifest umbrella_world) ?ds = Inr [bigtable_resolved]"
    by code_simp
  have h4: "\<forall>d\<in>set [bigtable_resolved]. rdep_name d \<noteq> UMBRELLA_PACKAGE" by code_simp
  have h5: "distinct (types_path example_env (the_builder ?self) #
              map (\<lambda>d. types_path example_env (dep_builder example_env d)) [bigtable_resolved])"
    by code_simp
  have h6: "\<forall>d\<in>set [bigtable_resolved].
      map_of (cache umbrella_world) (types_path example_env (dep_builder example_env d)) = None"
    by code_simp
  have h7: "map (\<lambda>d. built_types example_env (dep_builder example_env d) umbrella_world)
              [bigtable_resolved] = map Some [?ts]"
    by code_simp
  have c: "?base @ concat (map2 (\<lambda>d ts. map (prefix_contents (rdep_name d)) ts)
                              [bigtable_resolved] [?ts]) =
           [\<lparr> ty_name = ''gcloud'', contents = ''index.json'' \<rparr>,
            \<lparr> ty_name = ''bigtable'', contents = ''bigtable/index.json'' \<rparr>,
            \<lparr> ty_name = ''table'', contents = ''bigtable/table.json'' \<rparr>]"
    by code_simp
  show ?thesis
    using h1 h2 h3 h4 h5 h6 h7 bundle_types_dictionary [OF h1 h2 h3 h4 h5 h6 h7, of 0]
    unfolding c by simp
qed

text \<open>
  Claim C8: the combined type dictionary that \<^verbatim>\<open>bundle\<close> writes is the umbrella's own
  entries followed by every resolved dependency's entries, each with the dependency's
  name in front of its contents path. The code does not keep to this when one process
  bundles twice. \<^verbatim>\<open>getTypes\<close> reads through the module cache of \<^verbatim>\<open>require\<close>, and
  \<^verbatim>\<open>bundle\<close> puts the prefix on the cached entries themselves. A process that calls the
  exported \<^verbatim>\<open>build\<close> for the umbrella release 0.45.0 and then for 0.46.0 writes the
  right dictionary for 0.45.0. For 0.46.0 the dependency is built again, and its own
  dictionary file holds \<^verbatim>\<open>index.json\<close> and \<^verbatim>\<open>table.json\<close>; but its entries come out of
  the cache with the prefix of the first bundle and get it once more.
\<close>

theorem bundle_twice_prefixes_twice:
  "exports_build 1 example_env ''google-cloud'' (Some ''0.45.0'') recorded_world =
     Some (Inr (), bundled_once) \<and>
   map_of (files bundled_once) ''/repo/docs/json/google-cloud/0.45.0/types.json'' =
     Some (Types [\<lparr> ty_name = ''gcloud'', contents = ''index.json'' \<rparr>,
                  \<lparr> ty_name = ''bigtable'', contents = ''bigtable/index.json'' \<rparr>,
                  \<lparr> ty_name = ''table'', contents = ''bigtable/table.json'' \<rparr>]) \<and>
   exports_build 1 example_env ''google-cloud'' (Some ''0.46.0'') bundled_once =
     Some (Inr (), bundled_again) \<and>
   map_of (files bundled_again) ''/repo/bundler/docs/json/bigtable/0.4.1/types.json'' =
     Some (Types [\<lparr> ty_name = ''bigtable'', contents = ''index.json'' \<rparr>,
                  \<lparr> ty_name = ''table'', contents = ''table.json'' \<rparr>]) \<and>
   map_of (files bundled_again) ''/repo/docs/json/google-cloud/0.46.0/types.json'' =
     Some (Types [\<lparr> ty_name = ''gcloud'', contents = ''index.json'' \<rparr>,
                  \<lparr> ty_name = ''bigtable'', contents = ''bigtable/bigtable/index.json'' \<rparr>,
                  \<lparr> ty_name = ''table'', contents = ''bigtable/bigtable/table.json'' \<rparr>])"
  by code_simp

subsection \<open>A version that only the loose grammar accepts\<close>

text \<open>
  When \<^verbatim>\<open>semver.maxSatisfying\<close> throws for a dependency, \<^verbatim>\<open>bundle\<close> ends with that error
  before the submodule is made and before anything is written, and \<^verbatim>\<open>updateDep\<close> ends
  with it after the checkout of the umbrella version was restored.
\<close>

lemma resolve_deps_throws:
  "findWhere_obj modules (\<lambda>m. mod_id m = dep_name d) = Some config \<Longrightarrow>
   semver_maxSatisfying e (valid_versions e (versions config)) (dep_version d) = Inl err \<Longrightarrow>
   resolve_deps e modules (d # ds) = Inl err"
  by simp

lemma bundle_throws:
  assumes "getTypes e (the_builder self) w = (Inr baseTypes, w1)"
    and "getDeps e w1 = Inr ds"
    and "resolve_deps e (manifest w1) ds = Inl err"
  shows "Bundler_bundle (Suc n) e self w = Some (Inl err, w1)"
  using assms by (simp add: bundle_with_def)

lemma bundle_invalid_version:
  "valid_versions loose_env [''0.4.1'', ''=0.4.0'', ''master''] = [''0.4.1'', ''=0.4.0''] \<and>
   fst (the (Bundler_bundle 1 loose_env (Bundler (ABuilder umbrella_045)) loose_world)) =
     Inl (TypeError ''Invalid Version: =0.4.0'') \<and>
   files (snd (the (Bundler_bundle 1 loose_env (Bundler (ABuilder umbrella_045)) loose_world))) =
     files loose_world \<and>
   git_log (snd (the (Bundler_bundle 1 loose_env (Bundler (ABuilder umbrella_045)) loose_world))) =
     git_log loose_world"
  by code_simp

lemma updateDep_invalid_version:
  "fst (updateDep loose_env bigtable_041 loose_world) = Inl (TypeError ''Invalid Version: =0.4.0'') \<and>
   checked_out loose_world (snd (updateDep loose_env bigtable_041 loose_world)) = [''v0.45.0''] \<and>
   output_state (snd (updateDep loose_env bigtable_041 loose_world)) = output_state loose_world"
  by code_simp

end
